theory Spec2Isabelle
  imports Main "HOL-Library.Sublist"
begin

section \<open>JavaScript strings\<close>

text \<open>
  A JavaScript string is a sequence of UTF-16 code units. The embedding holds the code
  units below 256 (Basic Latin and Latin-1 Supplement), one per \<^typ>\<open>char\<close>; on that
  range \<open>String.prototype.toLowerCase\<close> works code unit by code unit and all the
  characters that the regular expression class \<open>\s\<close> matches are listed below.
\<close>

definition code_unit :: "char \<Rightarrow> nat" where
  "code_unit c = of_char c"

text \<open>
  The upper-case letters below U+0100 are A..Z (65..90), and U+00C0..U+00DE (192..222)
  without the multiplication sign U+00D7 (215); the lower-case letter is 32 further.
\<close>

definition toLowerCase_unit :: "char \<Rightarrow> char" where
  "toLowerCase_unit c =
     (let n = code_unit c
      in if (65 \<le> n \<and> n \<le> 90) \<or> (192 \<le> n \<and> n \<le> 222 \<and> n \<noteq> 215)
         then char_of (n + 32) else c)"

definition toLowerCase :: "string \<Rightarrow> string" where
  "toLowerCase s = map toLowerCase_unit s"

text \<open>
  The class \<open>\s\<close> of ECMAScript: tab, line feed, vertical tab, form feed, carriage
  return, space and the no-break space U+00A0 (the others are above U+00FF).
\<close>

definition isWhiteSpace :: "char \<Rightarrow> bool" where
  "isWhiteSpace c = (code_unit c \<in> {9, 10, 11, 12, 13, 32, 160})"

text \<open>
  \<open>s.replace(/\s+/g, "_")\<close>: scanning from the left, the longest match of \<open>\s+\<close>
  at the current position is replaced by one underscore and the scan resumes after it;
  a code unit that starts no match is copied.
\<close>

function replace_whitespace :: "string \<Rightarrow> string" where
  "replace_whitespace [] = []"
| "replace_whitespace (c # cs) =
     (if isWhiteSpace c then CHR ''_'' # replace_whitespace (dropWhile isWhiteSpace cs)
      else c # replace_whitespace cs)"
  by pat_completeness auto
termination
  by (relation "measure length") (auto simp: le_imp_less_Suc length_dropWhile_le)

text \<open>\<open>s.substring(0, n)\<close>: the first \<open>n\<close> code units, all of \<open>s\<close> when it is shorter.\<close>

definition substring0 :: "nat \<Rightarrow> string \<Rightarrow> string" where
  "substring0 n s = take n s"

text \<open>A number in a template literal: its decimal digits.\<close>

fun digits :: "nat \<Rightarrow> string" where
  "digits n = (if n < 10 then [char_of (48 + n)] else digits (n div 10) @ [char_of (48 + n mod 10)])"

section \<open>Accounts and profile documents\<close>

text \<open>
  The account of the platform's Users API, with the fields the service reads: \<open>$id\<close>,
  \<open>name\<close>, \<open>email\<close> and \<open>prefs\<close>. A field that is \<open>null\<close> or \<open>undefined\<close> is
  \<open>None\<close>.
\<close>

record prefs =
  avatar :: "string option"
  prefs_bio :: "string option"

record account =
  acc_id :: string
  acc_name :: "string option"
  acc_email :: string
  acc_prefs :: "prefs option"

text \<open>The object literal \<open>userData\<close> of \<open>fetchAndSaveAccounts\<close>.\<close>

record user_data =
  name :: string
  username :: string
  email :: string
  imageUrl :: string
  bio :: "string option"
  accountId :: string

text \<open>Truthiness of a string-valued field: present and not the empty string.\<close>

definition truthy :: "string option \<Rightarrow> bool" where
  "truthy v = (case v of None \<Rightarrow> False | Some s \<Rightarrow> s \<noteq> [])"

text \<open>\<open>acc.prefs?.avatar\<close> and \<open>acc.prefs?.bio\<close>.\<close>

definition prefs_avatar :: "account \<Rightarrow> string option" where
  "prefs_avatar acc = (case acc_prefs acc of None \<Rightarrow> None | Some p \<Rightarrow> avatar p)"

definition prefs_bio_of :: "account \<Rightarrow> string option" where
  "prefs_bio_of acc = (case acc_prefs acc of None \<Rightarrow> None | Some p \<Rightarrow> prefs_bio p)"

definition userData :: "account \<Rightarrow> user_data" where
  "userData acc =
     \<lparr> name = (if truthy (acc_name acc) then the (acc_name acc) else ''User''),
       username =
         (if truthy (acc_name acc)
          then replace_whitespace (toLowerCase (the (acc_name acc)))
          else ''user_'' @ substring0 8 (acc_id acc)),
       email = acc_email acc,
       imageUrl =
         (if truthy (prefs_avatar acc) then the (prefs_avatar acc)
          else ''https://api.dicebear.com/7.x/avataaars/svg?seed='' @ acc_id acc),
       bio = (if truthy (prefs_bio_of acc) then prefs_bio_of acc else None),
       accountId = acc_id acc \<rparr>"

section \<open>The remote platform\<close>

text \<open>
  The service talks to one database of a remote platform through its administrative API.
  The platform is not part of the repository: it is taken as a state with the calls the
  source issues. Every call can be rejected; which calls are rejected is decided by a
  failure policy that sees the whole state (the trace of earlier calls included), so that
  any deterministic pattern of remote failures is an instance. What the platform does
  with an accepted call is taken as follows: a listing answers with all there is (the
  collections, the attributes of a collection, the documents that match, a slice of the
  accounts); a creation takes effect at once, identifiers come from a counter, and a
  two-way relationship puts a field on both collections. When the platform refuses a call
  (a duplicate key, say), that is a rejection of the policy. The pauses of the source
  (\<open>setTimeout\<close>) and its informational \<open>console.log\<close> lines have no counterpart;
  \<open>console.error\<close> lines are kept.
\<close>

record collection =
  c_id :: nat
  c_name :: string
  c_attributes :: "string list"
  c_indexes :: "string list"

record document = user_data +
  d_id :: nat
  d_collectionId :: nat

datatype call =
    ListCollections
  | CreateCollection string
  | CreateStringAttribute nat string nat bool bool
  | CreateEmailAttribute nat string bool
  | CreateIndex nat string "string list"
  | ListAttributes nat
  | CreateRelationshipAttribute nat nat string string
  | UsersList nat nat
  | ListDocuments nat string
  | CreateDocument nat user_data

text \<open>
  \<open>CreateStringAttribute collection key max_length required array\<close> (the default value is
  \<open>null\<close> wherever the source gives one); \<open>CreateIndex collection key attributes\<close> (the
  type is \<open>IndexType.Key\<close> throughout); \<open>CreateRelationshipAttribute collection related key
  twoWayKey\<close> (many-to-one, two-way, \<open>RelationMutate.SetNull\<close> throughout);
  \<open>UsersList limit offset\<close>; \<open>ListDocuments collection accountId\<close> (the query
  \<open>Query.equal("accountId", ...)\<close>).
\<close>

datatype event = Done call | Rejected call string

datatype error = Error (message: string)

record platform =
  collections :: "collection list"
  documents :: "document list"
  accounts :: "account list"
  next_id :: nat
  trace :: "event list"
  console_errors :: "string list"

type_synonym policy = "platform \<Rightarrow> call \<Rightarrow> string option"

type_synonym 'a promise = "platform \<Rightarrow> (error + 'a) \<times> platform"

definition no_failures :: policy where
  "no_failures s c = None"

subsection \<open>Control flow of asynchronous functions\<close>

definition resolve :: "'a \<Rightarrow> 'a promise" where
  "resolve x s = (Inr x, s)"

definition throw :: "error \<Rightarrow> 'a promise" where
  "throw e s = (Inl e, s)"

text \<open>\<open>const x = await m; k x\<close>: a rejection of \<open>m\<close> leaves the rest undone.\<close>

definition await :: "'a promise \<Rightarrow> ('a \<Rightarrow> 'b promise) \<Rightarrow> 'b promise" where
  "await m k s = (case m s of (Inl e, s1) \<Rightarrow> (Inl e, s1) | (Inr x, s1) \<Rightarrow> k x s1)"

text \<open>\<open>try { m } catch (error) { h error }\<close>.\<close>

definition try_catch :: "'a promise \<Rightarrow> (error \<Rightarrow> 'a promise) \<Rightarrow> 'a promise" where
  "try_catch m h s = (case m s of (Inl e, s1) \<Rightarrow> h e s1 | (Inr x, s1) \<Rightarrow> (Inr x, s1))"

text \<open>
  \<open>await Promise.all([p1, ..., pn])\<close>: the calls are all issued when the array is built,
  whatever becomes of the others, and the result is rejected when one of them is. When
  several are rejected, \<open>Promise.all\<close> throws the error of the one that settles first;
  here it is the first in the order of the array.
\<close>

fun promise_all :: "unit promise list \<Rightarrow> unit promise" where
  "promise_all [] s = (Inr (), s)"
| "promise_all (p # ps) s =
     (case p s of (r, s1) \<Rightarrow>
        (case promise_all ps s1 of (rs, s2) \<Rightarrow>
           ((case r of Inl e \<Rightarrow> Inl e | Inr u \<Rightarrow> rs), s2)))"

definition console_error :: "string \<Rightarrow> unit promise" where
  "console_error line s = (Inr (), s\<lparr>console_errors := console_errors s @ [line]\<rparr>)"

subsection \<open>The calls\<close>

text \<open>
  A call is recorded in the trace with its outcome; a rejected call changes nothing else,
  an accepted one has its effect and returns its response.
\<close>

definition remote :: "policy \<Rightarrow> call \<Rightarrow> (platform \<Rightarrow> 'a \<times> platform) \<Rightarrow> 'a promise" where
  "remote F c effect s =
     (case F s c of
        Some m \<Rightarrow> (Inl (Error m), s\<lparr>trace := trace s @ [Rejected c m]\<rparr>)
      | None \<Rightarrow>
          (case effect s of (x, s1) \<Rightarrow> (Inr x, s1\<lparr>trace := trace s1 @ [Done c]\<rparr>)))"

definition listCollections :: "policy \<Rightarrow> collection list promise" where
  "listCollections F = remote F ListCollections (\<lambda>s. (collections s, s))"

text \<open>\<open>createCollection(databaseId, ID.unique(), name, [])\<close>: the platform picks the id.\<close>

definition createCollection :: "policy \<Rightarrow> string \<Rightarrow> collection promise" where
  "createCollection F n =
     remote F (CreateCollection n)
       (\<lambda>s. let c = \<lparr>c_id = next_id s, c_name = n, c_attributes = [], c_indexes = []\<rparr>
            in (c, s\<lparr>collections := collections s @ [c], next_id := Suc (next_id s)\<rparr>))"

definition add_attribute :: "nat \<Rightarrow> string \<Rightarrow> collection \<Rightarrow> collection" where
  "add_attribute i k c = (if c_id c = i then c\<lparr>c_attributes := c_attributes c @ [k]\<rparr> else c)"

definition add_index :: "nat \<Rightarrow> string \<Rightarrow> collection \<Rightarrow> collection" where
  "add_index i k c = (if c_id c = i then c\<lparr>c_indexes := c_indexes c @ [k]\<rparr> else c)"

definition createStringAttribute ::
  "policy \<Rightarrow> nat \<Rightarrow> string \<Rightarrow> nat \<Rightarrow> bool \<Rightarrow> bool \<Rightarrow> unit promise" where
  "createStringAttribute F i k max_length required array =
     remote F (CreateStringAttribute i k max_length required array)
       (\<lambda>s. ((), s\<lparr>collections := map (add_attribute i k) (collections s)\<rparr>))"

definition createEmailAttribute :: "policy \<Rightarrow> nat \<Rightarrow> string \<Rightarrow> bool \<Rightarrow> unit promise" where
  "createEmailAttribute F i k required =
     remote F (CreateEmailAttribute i k required)
       (\<lambda>s. ((), s\<lparr>collections := map (add_attribute i k) (collections s)\<rparr>))"

definition createIndex :: "policy \<Rightarrow> nat \<Rightarrow> string \<Rightarrow> string list \<Rightarrow> unit promise" where
  "createIndex F i k attrs =
     remote F (CreateIndex i k attrs)
       (\<lambda>s. ((), s\<lparr>collections := map (add_index i k) (collections s)\<rparr>))"

text \<open>\<open>listAttributes\<close> answers with the attributes of the collection; their keys are read.\<close>

definition attributes_of :: "nat \<Rightarrow> collection list \<Rightarrow> string list" where
  "attributes_of i cs = concat (map c_attributes (filter (\<lambda>c. c_id c = i) cs))"

definition listAttributes :: "policy \<Rightarrow> nat \<Rightarrow> string list promise" where
  "listAttributes F i =
     remote F (ListAttributes i) (\<lambda>s. (attributes_of i (collections s), s))"

text \<open>
  A two-way relationship puts the attribute \<open>key\<close> on the collection and the attribute
  \<open>twoWayKey\<close> on the related collection.
\<close>

definition link_attributes ::
  "nat \<Rightarrow> nat \<Rightarrow> string \<Rightarrow> string \<Rightarrow> collection list \<Rightarrow> collection list" where
  "link_attributes i related k twoWayKey cs =
     map (add_attribute related twoWayKey) (map (add_attribute i k) cs)"

definition createRelationshipAttribute ::
  "policy \<Rightarrow> nat \<Rightarrow> nat \<Rightarrow> string \<Rightarrow> string \<Rightarrow> unit promise" where
  "createRelationshipAttribute F i related k twoWayKey =
     remote F (CreateRelationshipAttribute i related k twoWayKey)
       (\<lambda>s. ((), s\<lparr>collections := link_attributes i related k twoWayKey (collections s)\<rparr>))"

text \<open>\<open>users.list([Query.limit(limit), Query.offset(offset)])\<close>: a page of the accounts.\<close>

definition users_list :: "policy \<Rightarrow> nat \<Rightarrow> nat \<Rightarrow> account list promise" where
  "users_list F lim off =
     remote F (UsersList lim off) (\<lambda>s. (take lim (drop off (accounts s)), s))"

definition matching :: "nat \<Rightarrow> string \<Rightarrow> document list \<Rightarrow> document list" where
  "matching i a ds = filter (\<lambda>d. d_collectionId d = i \<and> accountId d = a) ds"

definition listDocuments :: "policy \<Rightarrow> nat \<Rightarrow> string \<Rightarrow> document list promise" where
  "listDocuments F i a = remote F (ListDocuments i a) (\<lambda>s. (matching i a (documents s), s))"

definition new_document :: "nat \<Rightarrow> nat \<Rightarrow> user_data \<Rightarrow> document" where
  "new_document i c u = user_data.extend u \<lparr>d_id = i, d_collectionId = c\<rparr>"

definition createDocument :: "policy \<Rightarrow> nat \<Rightarrow> user_data \<Rightarrow> document promise" where
  "createDocument F i u =
     remote F (CreateDocument i u)
       (\<lambda>s. let d = new_document (next_id s) i u
            in (d, s\<lparr>documents := documents s @ [d], next_id := Suc (next_id s)\<rparr>))"

section \<open>The schema provisioner (\<open>database.js\<close>)\<close>

text \<open>\<open>collections.collections.find((collection) => collection.name === n)\<close>.\<close>

definition find_collection :: "string \<Rightarrow> collection list \<Rightarrow> collection option" where
  "find_collection n cs = find (\<lambda>collection. c_name collection = n) cs"

definition createUsersCollection :: "policy \<Rightarrow> collection promise" where
  "createUsersCollection F =
     try_catch
       (await (listCollections F) (\<lambda>collections.
          case find_collection ''users'' collections of
            Some usersCollection \<Rightarrow> resolve usersCollection
          | None \<Rightarrow>
              await (createCollection F ''users'') (\<lambda>collection.
              await (promise_all
                [createStringAttribute F (c_id collection) ''name'' 255 True False,
                 createStringAttribute F (c_id collection) ''username'' 100 True False,
                 createEmailAttribute F (c_id collection) ''email'' True,
                 createStringAttribute F (c_id collection) ''imageUrl'' 1024 True False,
                 createStringAttribute F (c_id collection) ''imageId'' 255 False False,
                 createStringAttribute F (c_id collection) ''bio'' 1024 False False,
                 createStringAttribute F (c_id collection) ''accountId'' 255 True False])
                (\<lambda>u.
              await (promise_all
                [createIndex F (c_id collection) ''email_index'' [''email''],
                 createIndex F (c_id collection) ''username_index'' [''username''],
                 createIndex F (c_id collection) ''account_index'' [''accountId'']])
                (\<lambda>u.
              resolve collection)))))
       (\<lambda>error.
          await (console_error ''Error creating users collection:'') (\<lambda>u. throw error))"

definition createPostsCollection :: "policy \<Rightarrow> collection promise" where
  "createPostsCollection F =
     try_catch
       (await (listCollections F) (\<lambda>collections.
          case find_collection ''posts'' collections of
            Some postsCollection \<Rightarrow> resolve postsCollection
          | None \<Rightarrow>
              await (createCollection F ''posts'') (\<lambda>collection.
              await (promise_all
                [createStringAttribute F (c_id collection) ''content'' 2048 True False,
                 createStringAttribute F (c_id collection) ''tags'' 255 False True,
                 createStringAttribute F (c_id collection) ''imageUrl'' 1024 True False,
                 createStringAttribute F (c_id collection) ''imageId'' 255 True False,
                 createStringAttribute F (c_id collection) ''location'' 255 False False])
                (\<lambda>u.
              await (promise_all
                [createIndex F (c_id collection) ''tags_index'' [''tags'']])
                (\<lambda>u.
              resolve collection)))))
       (\<lambda>error.
          await (console_error ''Error creating posts collection:'') (\<lambda>u. throw error))"

definition createSavesCollection :: "policy \<Rightarrow> collection promise" where
  "createSavesCollection F =
     try_catch
       (await (listCollections F) (\<lambda>collections.
          case find_collection ''saves'' collections of
            Some savesCollection \<Rightarrow> resolve savesCollection
          | None \<Rightarrow>
              await (createCollection F ''saves'') (\<lambda>collection.
              resolve collection)))
       (\<lambda>error.
          await (console_error ''Error creating saves collection:'') (\<lambda>u. throw error))"

definition createLikesCollection :: "policy \<Rightarrow> collection promise" where
  "createLikesCollection F =
     try_catch
       (await (listCollections F) (\<lambda>collections.
          case find_collection ''likes'' collections of
            Some likesCollection \<Rightarrow> resolve likesCollection
          | None \<Rightarrow>
              await (createCollection F ''likes'') (\<lambda>collection.
              resolve collection)))
       (\<lambda>error.
          await (console_error ''Error creating likes collection:'') (\<lambda>u. throw error))"

text \<open>
  The relationships of one of the collections \<open>saves\<close> and \<open>likes\<close>: the two blocks of
  \<open>createRelationships\<close> differ in the collection, in the inverse field names and in the
  line logged, and are one definition here. The attributes are listed once, before the
  first of the two links is made.
\<close>

definition user_and_post_relationships ::
  "policy \<Rightarrow> collection \<Rightarrow> collection \<Rightarrow> collection \<Rightarrow> string \<Rightarrow> string \<Rightarrow> string
     \<Rightarrow> unit promise" where
  "user_and_post_relationships F c usersCollection postsCollection userInverse postInverse line =
     try_catch
       (await (listAttributes F (c_id c)) (\<lambda>attributes.
        await (if \<not> (\<exists>key \<in> set attributes. key = ''user'')
               then createRelationshipAttribute F (c_id c) (c_id usersCollection)
                      ''user'' userInverse
               else resolve ()) (\<lambda>u.
        if \<not> (\<exists>key \<in> set attributes. key = ''post'')
        then createRelationshipAttribute F (c_id c) (c_id postsCollection) ''post'' postInverse
        else resolve ())))
       (\<lambda>error. console_error line)"

text \<open>The first block of \<open>createRelationships\<close>: the field \<open>posts\<close> of \<open>users\<close>.\<close>

definition posts_relationship :: "policy \<Rightarrow> collection \<Rightarrow> collection \<Rightarrow> unit promise" where
  "posts_relationship F usersCollection postsCollection =
     try_catch
       (await (listAttributes F (c_id usersCollection)) (\<lambda>userAttributes.
          if \<not> (\<exists>key \<in> set userAttributes. key = ''posts'')
          then createRelationshipAttribute F (c_id usersCollection)
                 (c_id postsCollection) ''posts'' ''creator''
          else resolve ()))
       (\<lambda>error. console_error ''Error creating relationship between users and posts:'')"

definition createRelationships_body :: "policy \<Rightarrow> unit promise" where
  "createRelationships_body F =
     await (listCollections F) (\<lambda>collections.
       case (find_collection ''users'' collections, find_collection ''posts'' collections) of
         (Some usersCollection, Some postsCollection) \<Rightarrow>
           await (posts_relationship F usersCollection postsCollection) (\<lambda>u.
           await (case find_collection ''saves'' collections of
                    Some savesCollection \<Rightarrow>
                      user_and_post_relationships F savesCollection usersCollection
                        postsCollection ''saves'' ''savedBy''
                        ''Error creating relationships for saves collection:''
                  | None \<Rightarrow> resolve ())
             (\<lambda>u.
           case find_collection ''likes'' collections of
             Some likesCollection \<Rightarrow>
               user_and_post_relationships F likesCollection usersCollection
                 postsCollection ''likes'' ''likedBy''
                 ''Error creating relationships for likes collection:''
           | None \<Rightarrow> resolve ()))
       | _ \<Rightarrow> resolve ())"

definition createRelationships :: "policy \<Rightarrow> unit promise" where
  "createRelationships F =
     try_catch (createRelationships_body F)
       (\<lambda>error. console_error ''Error creating relationships:'')"

definition initializeDatabase :: "policy \<Rightarrow> unit promise" where
  "initializeDatabase F =
     try_catch
       (await (createUsersCollection F) (\<lambda>c1.
        await (createPostsCollection F) (\<lambda>c2.
        await (createSavesCollection F) (\<lambda>c3.
        await (createLikesCollection F) (\<lambda>c4.
        await (createRelationships F) (\<lambda>u.
        resolve ()))))))
       (\<lambda>error. await (console_error ''Failed to initialize database:'') (\<lambda>u. throw error))"

section \<open>The account synchronisation service (\<open>accountService.js\<close>)\<close>

definition limit :: nat where
  "limit = 100"

text \<open>
  The \<open>while (hasMoreUsers)\<close> loop, from the offset and the accounts read so far. The
  accounts of the platform are a finite list and a page is a slice of it, which bounds the
  loop: a full page leaves \<open>limit\<close> fewer accounts beyond the next offset.
\<close>

function fetch_pages :: "policy \<Rightarrow> nat \<Rightarrow> account list \<Rightarrow> account list promise" where
  "fetch_pages F offset allUsers s =
     (case users_list F limit offset s of
        (Inl e, s1) \<Rightarrow> (Inl e, s1)
      | (Inr accountsPage, s1) \<Rightarrow>
          if length accountsPage < limit then (Inr (allUsers @ accountsPage), s1)
          else fetch_pages F (offset + limit) (allUsers @ accountsPage) s1)"
  by pat_completeness auto
termination
  by (relation "measure (\<lambda>(F, offset, allUsers, s). length (accounts s) - offset)")
     (auto simp: users_list_def remote_def limit_def split: option.splits)

declare fetch_pages.simps [simp del]

text \<open>
  The body of the inner \<open>try\<close> for one account. The answer of \<open>listDocuments\<close> is the list
  of the matching documents, \<open>total\<close> being its length: \<open>existingUsers.total > 0\<close> is
  a non-empty list and \<open>existingUsers.documents[0]\<close> its head.
\<close>

definition save_account :: "policy \<Rightarrow> collection \<Rightarrow> account \<Rightarrow> document promise" where
  "save_account F usersCollection acc =
     await (listDocuments F (c_id usersCollection) (acc_id acc)) (\<lambda>existingUsers.
       case existingUsers of
         d # ds \<Rightarrow> resolve d
       | [] \<Rightarrow>
           await (createDocument F (c_id usersCollection) (userData acc)) (\<lambda>newUser.
           resolve newUser))"

text \<open>The \<open>for (const acc of allUsers)\<close> loop, with the accounts saved so far.\<close>

fun process_accounts ::
  "policy \<Rightarrow> collection \<Rightarrow> account list \<Rightarrow> document list \<Rightarrow> document list promise" where
  "process_accounts F usersCollection [] savedAccounts = resolve savedAccounts"
| "process_accounts F usersCollection (acc # rest) savedAccounts =
     await (try_catch
              (await (save_account F usersCollection acc) (\<lambda>d. resolve (savedAccounts @ [d])))
              (\<lambda>error.
                 await (console_error (''Error processing account '' @ acc_id acc @ '':''))
                   (\<lambda>u. resolve savedAccounts)))
       (process_accounts F usersCollection rest)"

definition fetchAndSaveAccounts :: "policy \<Rightarrow> document list promise" where
  "fetchAndSaveAccounts F =
     try_catch
       (await (listCollections F) (\<lambda>collections.
          case find_collection ''users'' collections of
            None \<Rightarrow> throw (Error ''Users collection not found'')
          | Some usersCollection \<Rightarrow>
              await (fetch_pages F 0 []) (\<lambda>allUsers.
              process_accounts F usersCollection allUsers [])))
       (\<lambda>error.
          await (console_error ''Error fetching and saving accounts:'') (\<lambda>u. throw error))"

section \<open>The HTTP front door (\<open>index.js\<close>)\<close>

datatype json = JBool bool | JString string | JDocuments "document list"

record response =
  status :: nat
  body :: "(string \<times> json) list"

text \<open>The handler of \<open>GET /accounts/sync\<close>; \<open>res.json\<close> answers with status 200.\<close>

definition accounts_sync :: "policy \<Rightarrow> platform \<Rightarrow> response \<times> platform" where
  "accounts_sync F s =
     (case fetchAndSaveAccounts F s of
        (Inr savedAccounts, s1) \<Rightarrow>
          (\<lparr>status = 200,
            body = [(''success'', JBool True),
                    (''message'', JString (''Successfully processed '' @
                        digits (length savedAccounts) @ '' accounts'')),
                    (''data'', JDocuments savedAccounts)]\<rparr>, s1)
      | (Inl error, s1) \<Rightarrow>
          (\<lparr>status = 500,
            body = [(''success'', JBool False),
                    (''message'', JString ''Failed to sync accounts''),
                    (''error'', JString (message error))]\<rparr>,
           s1\<lparr>console_errors := console_errors s1 @ [''Error syncing accounts:'']\<rparr>))"

subsection \<open>What a run did\<close>

text \<open>The events a run added to the trace, and the call of an event.\<close>

definition new_events :: "platform \<Rightarrow> platform \<Rightarrow> event list" where
  "new_events s s1 = drop (length (trace s)) (trace s1)"

fun call_of :: "event \<Rightarrow> call" where
  "call_of (Done c) = c"
| "call_of (Rejected c m) = c"

section \<open>Notions of the specification\<close>

text \<open>
  The maximal runs of a list under a predicate: consecutive elements are in one run when
  the predicate has the same value on them.
\<close>

fun runs :: "('a \<Rightarrow> bool) \<Rightarrow> 'a list \<Rightarrow> 'a list list" where
  "runs P [] = []"
| "runs P (x # xs) =
     (case runs P xs of
        [] \<Rightarrow> [[x]]
      | r # rs \<Rightarrow> if P x = P (hd r) then (x # r) # rs else [x] # r # rs)"

text \<open>A string with every whitespace run replaced by one underscore.\<close>

definition underscore_whitespace_runs :: "string \<Rightarrow> string" where
  "underscore_whitespace_runs s =
     concat (map (\<lambda>r. if isWhiteSpace (hd r) then ''_'' else r) (runs isWhiteSpace s))"

text \<open>The four collection-creation steps of \<open>initializeDatabase\<close>, without the relationships.\<close>

definition create_collections :: "policy \<Rightarrow> unit promise" where
  "create_collections F =
     await (createUsersCollection F) (\<lambda>c1.
     await (createPostsCollection F) (\<lambda>c2.
     await (createSavesCollection F) (\<lambda>c3.
     await (createLikesCollection F) (\<lambda>c4.
     resolve ()))))"

text \<open>The number of accounts in the page that the platform returns to a listing call.\<close>

definition page_size :: "platform \<Rightarrow> call \<Rightarrow> nat" where
  "page_size s c =
     (case c of UsersList lim off \<Rightarrow> length (take lim (drop off (accounts s))) | _ \<Rightarrow> 0)"



fun read_only :: "call \<Rightarrow> bool" where
  "read_only ListCollections = True"
| "read_only (ListAttributes i) = True"
| "read_only (UsersList lim off) = True"
| "read_only (ListDocuments i a) = True"
| "read_only c = False"

fun lists_accounts :: "call \<Rightarrow> bool" where
  "lists_accounts (UsersList lim off) = True"
| "lists_accounts c = False"

fun looks_up :: "call \<Rightarrow> bool" where
  "looks_up (ListDocuments i a) = True"
| "looks_up c = False"



text \<open>
  The accounts that a run failed on: those whose lookup or whose creation the platform
  rejected, as the trace tells; the line logged for such an account; the documents a run
  returned.
\<close>

fun failed_account :: "event \<Rightarrow> string option" where
  "failed_account (Rejected (ListDocuments i a) m) = Some a"
| "failed_account (Rejected (CreateDocument i u) m) = Some (accountId u)"
| "failed_account e = None"

definition failed_accounts :: "event list \<Rightarrow> string list" where
  "failed_accounts evs = List.map_filter failed_account evs"

definition saved_of :: "error + document list \<Rightarrow> document list" where
  "saved_of r = (case r of Inr docs \<Rightarrow> docs | Inl e \<Rightarrow> [])"

definition error_line :: "string \<Rightarrow> string" where
  "error_line a = ''Error processing account '' @ a @ '':''"

text \<open>
  A collection of the given name is listed and has an attribute of the given key; the
  database has the four collections and the five relationship fields on their owners.
\<close>

definition has_attribute :: "string \<Rightarrow> string \<Rightarrow> platform \<Rightarrow> bool" where
  "has_attribute n k s =
     (case find_collection n (collections s) of
        None \<Rightarrow> False
      | Some c \<Rightarrow> k \<in> set (attributes_of (c_id c) (collections s)))"

definition provisioned :: "platform \<Rightarrow> bool" where
  "provisioned s =
     (has_attribute ''users'' ''posts'' s
      \<and> find_collection ''posts'' (collections s) \<noteq> None
      \<and> has_attribute ''saves'' ''user'' s \<and> has_attribute ''saves'' ''post'' s
      \<and> has_attribute ''likes'' ''user'' s \<and> has_attribute ''likes'' ''post'' s)"

text \<open>
  A call that creates a collection under a name that is not listed, or a relationship
  attribute under a key that its collection lacks (the other calls are not restricted);
  the calls that create the relationship attribute \<open>k\<close> of collection \<open>i\<close>.
\<close>

fun fresh_call :: "platform \<Rightarrow> call \<Rightarrow> bool" where
  "fresh_call s (CreateCollection n) = (n \<notin> c_name ` set (collections s))"
| "fresh_call s (CreateRelationshipAttribute i r k t) =
     (k \<notin> set (attributes_of i (collections s)))"
| "fresh_call s c = True"

fun creates_link :: "nat \<Rightarrow> string \<Rightarrow> call \<Rightarrow> bool" where
  "creates_link i k (CreateRelationshipAttribute j r k1 t) = (j = i \<and> k1 = k)"
| "creates_link i k c = False"

subsection \<open>Relations between the states of a run\<close>

text \<open>
  The database when the sync has listed the collections and fetched the pages of
  accounts, all these calls being answered: the trace has grown by them.
\<close>

definition fetched :: "platform \<Rightarrow> platform" where
  "fetched s =
     s\<lparr>trace := trace s @ Done ListCollections #
          map (\<lambda>k. Done (UsersList limit (k * limit)))
            [0..<Suc (length (accounts s) div limit)]\<rparr>"


text \<open>
  What a step of the sync keeps of the documents of collection \<open>i\<close>: the documents
  with an \<open>accountId\<close> that has some stay as they are, and an \<open>accountId\<close> that has
  none gets at most one.
\<close>

definition keeps_one :: "nat \<Rightarrow> platform \<Rightarrow> platform \<Rightarrow> bool" where
  "keeps_one i s s1 =
     (collections s1 = collections s
      \<and> (\<forall>a. (matching i a (documents s) \<noteq> [] \<longrightarrow>
                 matching i a (documents s1) = matching i a (documents s))
             \<and> (matching i a (documents s) = [] \<longrightarrow>
                 length (matching i a (documents s1)) \<le> 1)))"

text \<open>
  A quiet step issues calls that only read and leaves the collections and the documents
  as they are.
\<close>

definition quiet :: "platform \<Rightarrow> platform \<Rightarrow> bool" where
  "quiet s s1 =
     (collections s1 = collections s \<and> documents s1 = documents s
      \<and> (\<exists>evs. trace s1 = trace s @ evs \<and> list_all (\<lambda>e. read_only (call_of e)) evs))"

text \<open>
  The relationship phase changes the collections by adding attributes only: the
  collections stay, with their identifiers and names, and keep their attributes.
\<close>

definition extends :: "platform \<Rightarrow> platform \<Rightarrow> bool" where
  "extends s s1 =
     (map c_id (collections s1) = map c_id (collections s)
      \<and> map c_name (collections s1) = map c_name (collections s)
      \<and> (\<forall>i. set (attributes_of i (collections s)) \<subseteq> set (attributes_of i (collections s1))))"

text \<open>
  A step that keeps the names and the attributes there are and creates collections and
  relationship attributes only under names and keys that were not there.
\<close>

definition only_fresh :: "platform \<Rightarrow> platform \<Rightarrow> bool" where
  "only_fresh s s1 =
     (c_name ` set (collections s) \<subseteq> c_name ` set (collections s1)
      \<and> (\<forall>i. set (attributes_of i (collections s)) \<subseteq> set (attributes_of i (collections s1)))
      \<and> (\<exists>evs. trace s1 = trace s @ evs \<and> list_all (\<lambda>e. fresh_call s (call_of e)) evs))"

definition links_fresh :: "platform \<Rightarrow> platform \<Rightarrow> bool" where
  "links_fresh s s1 =
     (extends s s1
      \<and> (\<exists>evs. trace s1 = trace s @ evs \<and> list_all (\<lambda>e. fresh_call s (call_of e)) evs))"

subsection \<open>Example databases and failure policies\<close>

text \<open>A database with nothing in it, and one with \<open>n\<close> accounts on the platform.\<close>

definition empty_platform :: platform where
  "empty_platform =
     \<lparr>collections = [], documents = [], accounts = [], next_id = 0, trace = [],
      console_errors = []\<rparr>"

definition account_number :: "nat \<Rightarrow> account" where
  "account_number n =
     \<lparr>acc_id = ''account'' @ digits n, acc_name = None,
      acc_email = ''account'' @ digits n @ ''@example.org'', acc_prefs = None\<rparr>"

definition platform_with_accounts :: "nat \<Rightarrow> platform" where
  "platform_with_accounts n = empty_platform\<lparr>accounts := map account_number [1..<Suc n]\<rparr>"

text \<open>
  A database whose \<open>users\<close> collection holds the profile of one account, created when the
  account had another name and another address.
\<close>

definition users_collection0 :: collection where
  "users_collection0 = \<lparr>c_id = 0, c_name = ''users'', c_attributes = [], c_indexes = []\<rparr>"




text \<open>
  A batch of \<open>n\<close> accounts, a database with the \<open>users\<close> collection and these
  accounts, and the platform that rejects the creation of the profile of one account.
\<close>

definition batch :: "nat \<Rightarrow> account list" where
  "batch n = map account_number [1..<Suc n]"

definition provisioned_platform :: "nat \<Rightarrow> platform" where
  "provisioned_platform n =
     (platform_with_accounts n)\<lparr>collections := [users_collection0], next_id := 1\<rparr>"

definition rejects_creation_for :: "string \<Rightarrow> policy" where
  "rejects_creation_for a s c =
     (case c of
        CreateDocument i u \<Rightarrow> if accountId u = a then Some ''Invalid document structure'' else None
      | _ \<Rightarrow> None)"

text \<open>The database after a run of the provisioner, with no failure, on an empty one.\<close>

definition provisioned_once :: platform where
  "provisioned_once = snd (initializeDatabase no_failures empty_platform)"

section \<open>Username derivation\<close>

lemma runs_Cons_hd: "\<exists>r rs. runs P (x # xs) = (x # r) # rs"
  by (cases "runs P xs") auto

lemma underscore_runs_space:
  "isWhiteSpace c \<Longrightarrow>
     underscore_whitespace_runs (c # cs) =
       CHR ''_'' # underscore_whitespace_runs (dropWhile isWhiteSpace cs)"
proof (induction cs arbitrary: c)
  case Nil
  then show ?case by (simp add: underscore_whitespace_runs_def)
next
  case (Cons d ds)
  obtain r rs where r: "runs isWhiteSpace (d # ds) = (d # r) # rs"
    using runs_Cons_hd [of isWhiteSpace d ds] by blast
  show ?case
  proof (cases "isWhiteSpace d")
    case True
    from Cons.IH [OF True] r True
    have "underscore_whitespace_runs (dropWhile isWhiteSpace ds) =
            concat (map (\<lambda>r. if isWhiteSpace (hd r) then ''_'' else r) rs)"
      by (simp add: underscore_whitespace_runs_def)
    with r True Cons.prems show ?thesis
      by (simp add: underscore_whitespace_runs_def)
  next
    case False
    with r Cons.prems show ?thesis
      by (simp add: underscore_whitespace_runs_def)
  qed
qed

lemma underscore_runs_other:
  "\<not> isWhiteSpace c \<Longrightarrow>
     underscore_whitespace_runs (c # cs) = c # underscore_whitespace_runs cs"
  by (cases "runs isWhiteSpace cs") (auto simp: underscore_whitespace_runs_def)

lemma replace_whitespace_runs: "replace_whitespace s = underscore_whitespace_runs s"
proof (induction s rule: replace_whitespace.induct)
  case 1
  show ?case by (simp add: underscore_whitespace_runs_def)
next
  case (2 c cs)
  then show ?case
    by (cases "isWhiteSpace c") (simp_all add: underscore_runs_space underscore_runs_other)
qed

text \<open>
  C3, as amended. For an account with a non-empty name the username is the lower-cased
  name with every whitespace run replaced by one underscore, so that the name
  \<open>Jane Doe\<close> gives \<open>jane_doe\<close>; for an account with no name it is \<open>user_\<close> followed by
  the first 8 characters of the account identifier, so that the identifier
  \<open>abcdefgh1234\<close> gives \<open>user_abcdefgh\<close>.
\<close>

theorem username_derivation:
  "(acc_name acc = Some n \<and> n \<noteq> [] \<longrightarrow>
      username (userData acc) = underscore_whitespace_runs (toLowerCase n))
   \<and> (acc_name acc = None \<longrightarrow>
      username (userData acc) = ''user_'' @ take 8 (acc_id acc))
   \<and> username (userData \<lparr>acc_id = i, acc_name = Some ''Jane Doe'', acc_email = e,
                           acc_prefs = p\<rparr>) = ''jane_doe''
   \<and> username (userData \<lparr>acc_id = ''abcdefgh1234'', acc_name = None, acc_email = e,
                           acc_prefs = p\<rparr>) = ''user_abcdefgh''"
proof -
  have "replace_whitespace (toLowerCase ''Jane Doe'') = ''jane_doe''"
    by code_simp
  then show ?thesis
    by (simp add: userData_def truthy_def substring0_def replace_whitespace_runs)
qed

theorem username_derivation_witness:
  "username (userData \<lparr>acc_id = ''abcdefgh1234'', acc_name = Some ''Ada  Lovelace'',
                        acc_email = ''ada@example.org'', acc_prefs = None\<rparr>) = ''ada_lovelace''
   \<and> username (userData \<lparr>acc_id = ''0123456789'', acc_name = None,
                           acc_email = ''ada@example.org'', acc_prefs = None\<rparr>)
       = ''user_01234567''"
proof -
  have a: "underscore_whitespace_runs (toLowerCase ''Ada  Lovelace'') = ''ada_lovelace''"
    by code_simp
  show ?thesis
    using username_derivation
            [of "\<lparr>acc_id = ''abcdefgh1234'', acc_name = Some ''Ada  Lovelace'',
                  acc_email = ''ada@example.org'', acc_prefs = None\<rparr>" "''Ada  Lovelace''"]
          username_derivation
            [of "\<lparr>acc_id = ''0123456789'', acc_name = None,
                  acc_email = ''ada@example.org'', acc_prefs = None\<rparr>"]
    by (simp add: a)
qed

text \<open>
  The example of C3 as the claim words it: with no name and the identifier
  \<open>abcdefgh1234\<close> the username is not \<open>user_abcdefg\<close>, which has 7 characters of the
  identifier only.
\<close>

theorem username_example_counterexample:
  "username (userData \<lparr>acc_id = ''abcdefgh1234'', acc_name = None, acc_email = [],
                        acc_prefs = None\<rparr>) \<noteq> ''user_abcdefg''"
  by (simp add: userData_def truthy_def substring0_def)

text \<open>
  C10. An account whose name is the empty string gets the profile of an account with no
  name: the name \<open>User\<close> and the username \<open>user_\<close> followed by the first 8 characters
  of the account identifier.
\<close>

theorem empty_name_as_absent:
  "userData (acc\<lparr>acc_name := Some []\<rparr>) = userData (acc\<lparr>acc_name := None\<rparr>)
   \<and> name (userData (acc\<lparr>acc_name := Some []\<rparr>)) = ''User''
   \<and> username (userData (acc\<lparr>acc_name := Some []\<rparr>)) = ''user_'' @ take 8 (acc_id acc)"
  by (simp add: userData_def truthy_def substring0_def prefs_avatar_def prefs_bio_of_def)

section \<open>Failures of the relationship phase\<close>

text \<open>
  C9. \<open>createRelationships\<close> never propagates an error: whatever the platform rejects,
  it returns normally, and a failure of its body is logged. Hence \<open>initializeDatabase\<close>
  fails exactly when the four collection-creation steps fail, with their error.
\<close>

theorem relationships_never_fail:
  "fst (createRelationships F s) = Inr ()
   \<and> console_errors (snd (createRelationships F s)) =
       console_errors (snd (createRelationships_body F s)) @
         (case fst (createRelationships_body F s) of
            Inl e \<Rightarrow> [''Error creating relationships:'']
          | Inr u \<Rightarrow> [])
   \<and> (fst (initializeDatabase F s) = Inl e) = (fst (create_collections F s) = Inl e)"
proof -
  have a: "fst (createRelationships F s) = Inr ()" for s
    by (simp add: createRelationships_def try_catch_def console_error_def
        split: prod.splits sum.splits)
  have b: "console_errors (snd (createRelationships F s)) =
       console_errors (snd (createRelationships_body F s)) @
         (case fst (createRelationships_body F s) of
            Inl e \<Rightarrow> [''Error creating relationships:'']
          | Inr u \<Rightarrow> [])"
    by (simp add: createRelationships_def try_catch_def console_error_def
        split: prod.splits sum.splits)
  have a': "createRelationships F s \<noteq> (Inl e, t)" for s e t
    using a [of s] by auto
  have c: "(fst (initializeDatabase F s) = Inl e) = (fst (create_collections F s) = Inl e)"
    by (auto simp: a' initializeDatabase_def create_collections_def try_catch_def await_def
        console_error_def throw_def resolve_def
        split: prod.splits sum.splits)
  from a b c show ?thesis by blast
qed

section \<open>The sync endpoint\<close>

text \<open>
  C7. \<open>GET /accounts/sync\<close> answers 200 with the body \<open>{success: true, message, data}\<close>
  when the account sync succeeds and 500 with the body
  \<open>{success: false, message, error}\<close> when it throws; it answers nothing else.
\<close>

theorem sync_endpoint_envelope:
  "(case fst (fetchAndSaveAccounts F s) of
      Inr savedAccounts \<Rightarrow>
        fst (accounts_sync F s) =
          \<lparr>status = 200,
           body = [(''success'', JBool True),
                   (''message'', JString (''Successfully processed '' @
                       digits (length savedAccounts) @ '' accounts'')),
                   (''data'', JDocuments savedAccounts)]\<rparr>
    | Inl error \<Rightarrow>
        fst (accounts_sync F s) =
          \<lparr>status = 500,
           body = [(''success'', JBool False),
                   (''message'', JString ''Failed to sync accounts''),
                   (''error'', JString (message error))]\<rparr>)
   \<and> (status (fst (accounts_sync F s)) = 200 \<or> status (fst (accounts_sync F s)) = 500)
   \<and> (map fst (body (fst (accounts_sync F s))) = [''success'', ''message'', ''data'']
      \<or> map fst (body (fst (accounts_sync F s))) = [''success'', ''message'', ''error''])"
  by (simp add: accounts_sync_def split: prod.splits sum.splits)

section \<open>Sync before the schema exists\<close>

text \<open>
  C6. In a database with no collection named \<open>users\<close>, the account sync fails: with the
  error \<open>Users collection not found\<close> (the \<open>SchemaNotReadyError\<close> of the specification)
  when the platform answers the listing of the collections, and with the platform's error
  when it rejects the listing. Either way that listing is the only call issued (no account
  is fetched, no document looked up or created), and \<open>GET /accounts/sync\<close> answers 500.
\<close>

theorem schema_not_ready:
  assumes "find_collection ''users'' (collections s) = None"
  shows "(F s ListCollections = None \<longrightarrow>
            fst (fetchAndSaveAccounts F s) = Inl (Error ''Users collection not found''))
         \<and> (\<exists>e. fst (fetchAndSaveAccounts F s) = Inl e)
         \<and> map call_of (new_events s (snd (fetchAndSaveAccounts F s))) = [ListCollections]
         \<and> documents (snd (fetchAndSaveAccounts F s)) = documents s
         \<and> status (fst (accounts_sync F s)) = 500
         \<and> (F s ListCollections = None \<longrightarrow>
              body (fst (accounts_sync F s)) =
                [(''success'', JBool False),
                 (''message'', JString ''Failed to sync accounts''),
                 (''error'', JString ''Users collection not found'')])"
  using assms
  by (cases "F s ListCollections")
     (simp_all add: fetchAndSaveAccounts_def accounts_sync_def try_catch_def await_def
       listCollections_def remote_def throw_def console_error_def new_events_def)

theorem schema_not_ready_witness:
  "fst (fetchAndSaveAccounts no_failures empty_platform)
     = Inl (Error ''Users collection not found'')
   \<and> map call_of (new_events empty_platform
         (snd (fetchAndSaveAccounts no_failures empty_platform))) = [ListCollections]
   \<and> status (fst (accounts_sync no_failures empty_platform)) = 500"
proof -
  have "find_collection ''users'' (collections empty_platform) = None"
    by (simp add: empty_platform_def find_collection_def)
  from schema_not_ready [OF this, of no_failures] show ?thesis
    by (simp add: no_failures_def)
qed

section \<open>Pagination of the account list\<close>

lemma users_list_accepted:
  "F s (UsersList lim off) = None \<Longrightarrow>
     users_list F lim off s =
       (Inr (take lim (drop off (accounts s))), s\<lparr>trace := trace s @ [Done (UsersList lim off)]\<rparr>)"
  by (simp add: users_list_def remote_def)

lemma map_upt_Suc_Suc: "map f [0..<Suc (Suc m)] = f 0 # map (\<lambda>k. f (Suc k)) [0..<Suc m]"
proof -
  have "[0..<Suc (Suc m)] = 0 # map Suc [0..<Suc m]"
    by (simp only: map_Suc_upt) (simp add: upt_conv_Cons)
  then show ?thesis by (simp only: list.map map_map comp_def)
qed

lemma fetch_pages_all:
  assumes "\<And>t off. F t (UsersList limit off) = None"
  shows "fetch_pages F offset allUsers s =
           (Inr (allUsers @ drop offset (accounts s)),
            s\<lparr>trace := trace s @
                 map (\<lambda>k. Done (UsersList limit (offset + k * limit)))
                   [0..<Suc ((length (accounts s) - offset) div limit)]\<rparr>)"
  using assms
proof (induction F offset allUsers s rule: fetch_pages.induct)
  case (1 F offset allUsers s)
  let ?page = "take limit (drop offset (accounts s))"
  let ?s1 = "s\<lparr>trace := trace s @ [Done (UsersList limit offset)]\<rparr>"
  have ul: "users_list F limit offset s = (Inr ?page, ?s1)"
    by (rule users_list_accepted) (rule "1.prems")
  have pos: "0 < limit" by (simp add: limit_def)
  show ?case
  proof (cases "length ?page < limit")
    case True
    then have short: "length (accounts s) - offset < limit" by simp
    then have "?page = drop offset (accounts s)" by simp
    moreover from short have "(length (accounts s) - offset) div limit = 0" by simp
    ultimately show ?thesis
      using True ul by (simp add: fetch_pages.simps [of F offset allUsers s])
  next
    case False
    then have full: "limit \<le> length (accounts s) - offset" by simp
    have ih: "fetch_pages F (offset + limit) (allUsers @ ?page) ?s1 =
           (Inr ((allUsers @ ?page) @ drop (offset + limit) (accounts ?s1)),
            ?s1\<lparr>trace := trace ?s1 @
                 map (\<lambda>k. Done (UsersList limit (offset + limit + k * limit)))
                   [0..<Suc ((length (accounts ?s1) - (offset + limit)) div limit)]\<rparr>)"
      using "1.IH" [OF ul [symmetric] refl False] "1.prems" by blast
    have d: "(length (accounts s) - offset) div limit =
               Suc ((length (accounts s) - (offset + limit)) div limit)"
      using le_div_geq [OF pos full] by (simp add: diff_diff_left)
    have a: "?page @ drop (offset + limit) (accounts s) = drop offset (accounts s)"
      using append_take_drop_id [of limit "drop offset (accounts s)"]
      by (simp add: add.commute)
    show ?thesis
      using False ul ih a
      by (simp add: fetch_pages.simps [of F offset allUsers s] d map_upt_Suc_Suc
               add.assoc del: upt_Suc)
  qed
qed


lemma full_pages:
  assumes "k < length xs div limit"
  shows "length (take limit (drop (k * limit) xs)) = limit"
proof -
  from assms have "Suc k \<le> length xs div limit" by simp
  then have "Suc k * limit \<le> length xs"
    by (simp add: limit_def less_eq_div_iff_mult_less_eq)
  then show ?thesis by simp
qed

lemma last_page: "length (take limit (drop (length xs div limit * limit) xs)) < limit"
proof -
  have "length xs - length xs div limit * limit = length xs mod limit"
    by (simp add: minus_div_mult_eq_mod)
  then show ?thesis by (simp add: limit_def)
qed

section \<open>The sync, step by step\<close>

lemma save_account_unfold:
  "save_account F uc acc s =
     (case F s (ListDocuments (c_id uc) (acc_id acc)) of
        Some m \<Rightarrow>
          (Inl (Error m),
           s\<lparr>trace := trace s @ [Rejected (ListDocuments (c_id uc) (acc_id acc)) m]\<rparr>)
      | None \<Rightarrow>
          (case matching (c_id uc) (acc_id acc) (documents s) of
             d # ds \<Rightarrow>
               (Inr d, s\<lparr>trace := trace s @ [Done (ListDocuments (c_id uc) (acc_id acc))]\<rparr>)
           | [] \<Rightarrow>
               (case F (s\<lparr>trace := trace s @ [Done (ListDocuments (c_id uc) (acc_id acc))]\<rparr>)
                       (CreateDocument (c_id uc) (userData acc)) of
                  Some m \<Rightarrow>
                    (Inl (Error m),
                     s\<lparr>trace := trace s @
                         [Done (ListDocuments (c_id uc) (acc_id acc)),
                          Rejected (CreateDocument (c_id uc) (userData acc)) m]\<rparr>)
                | None \<Rightarrow>
                    (Inr (new_document (next_id s) (c_id uc) (userData acc)),
                     s\<lparr>documents := documents s @
                           [new_document (next_id s) (c_id uc) (userData acc)],
                       next_id := Suc (next_id s),
                       trace := trace s @
                         [Done (ListDocuments (c_id uc) (acc_id acc)),
                          Done (CreateDocument (c_id uc) (userData acc))]\<rparr>))))"
  by (simp add: save_account_def await_def listDocuments_def createDocument_def remote_def
      resolve_def Let_def split: option.splits list.splits)

lemma process_accounts_Cons:
  "process_accounts F uc (acc # rest) saved s =
     (case save_account F uc acc s of
        (Inr d, s1) \<Rightarrow> process_accounts F uc rest (saved @ [d]) s1
      | (Inl e, s1) \<Rightarrow>
          process_accounts F uc rest saved
            (s1\<lparr>console_errors := console_errors s1 @
                 [''Error processing account '' @ acc_id acc @ '':'']\<rparr>))"
  by (simp add: await_def try_catch_def resolve_def console_error_def
      split: prod.splits sum.splits)



lemma listCollections_unfold:
  "listCollections F s =
     (case F s ListCollections of
        Some m \<Rightarrow> (Inl (Error m), s\<lparr>trace := trace s @ [Rejected ListCollections m]\<rparr>)
      | None \<Rightarrow> (Inr (collections s), s\<lparr>trace := trace s @ [Done ListCollections]\<rparr>))"
  by (simp add: listCollections_def remote_def split: option.splits)



lemma process_accounts_returns:
  "\<exists>docs. fst (process_accounts F uc accs saved s) = Inr docs"
proof (induction accs arbitrary: saved s)
  case Nil
  show ?case by (simp add: resolve_def)
next
  case (Cons acc rest)
  obtain r s1 where sa: "save_account F uc acc s = (r, s1)"
    by (cases "save_account F uc acc s")
  show ?case
  proof (cases r)
    case (Inl e)
    with sa Cons.IH show ?thesis
      by (simp add: process_accounts_Cons del: process_accounts.simps)
  next
    case (Inr d)
    with sa Cons.IH show ?thesis
      by (simp add: process_accounts_Cons del: process_accounts.simps)
  qed
qed

lemma fetchAndSaveAccounts_unfold:
  "fetchAndSaveAccounts F s =
     (case listCollections F s of
        (Inl e, s1) \<Rightarrow>
          (Inl e, s1\<lparr>console_errors := console_errors s1 @
                        [''Error fetching and saving accounts:'']\<rparr>)
      | (Inr cs, s1) \<Rightarrow>
          (case find_collection ''users'' cs of
             None \<Rightarrow>
               (Inl (Error ''Users collection not found''),
                s1\<lparr>console_errors := console_errors s1 @
                      [''Error fetching and saving accounts:'']\<rparr>)
           | Some uc \<Rightarrow>
               (case fetch_pages F 0 [] s1 of
                  (Inl e, s2) \<Rightarrow>
                    (Inl e, s2\<lparr>console_errors := console_errors s2 @
                                  [''Error fetching and saving accounts:'']\<rparr>)
                | (Inr allUsers, s2) \<Rightarrow>
                    (Inr (case fst (process_accounts F uc allUsers [] s2) of
                            Inr docs \<Rightarrow> docs | Inl e \<Rightarrow> []),
                     snd (process_accounts F uc allUsers [] s2)))))"
proof -
  have n: "process_accounts F uc allUsers [] s2 \<noteq> (Inl e, t)" for uc allUsers s2 e t
    using process_accounts_returns [of F uc allUsers "[]" s2] by auto
  show ?thesis
    by (auto simp: n fetchAndSaveAccounts_def try_catch_def await_def throw_def console_error_def
        split: prod.splits sum.splits option.splits)
qed


section \<open>Documents are created, never updated\<close>










section \<open>One profile for each account\<close>






lemma keeps_one_accounts: "keeps_one i s (s\<lparr>accounts := l\<rparr>)"
  by (simp add: keeps_one_def)

lemma matching_new_document:
  "matching i a [new_document n i u] = (if accountId u = a then [new_document n i u] else [])"
  by (simp add: matching_def new_document_def user_data.defs)

lemma accountId_userData: "accountId (userData acc) = acc_id acc"
  by (simp add: userData_def)










section \<open>Failures of single accounts\<close>

lemma failed_accounts_append:
  "failed_accounts (xs @ ys) = failed_accounts xs @ failed_accounts ys"
  by (simp add: failed_accounts_def map_filter_def)

lemma failed_accounts_simps:
  "failed_accounts [] = []"
  "failed_accounts (e # evs) =
     (case failed_account e of None \<Rightarrow> failed_accounts evs | Some a \<Rightarrow> a # failed_accounts evs)"
  by (simp_all add: failed_accounts_def map_filter_simps split: option.splits)

lemma matching_accountId: "matching i a ds = d # rest \<Longrightarrow> accountId d = a"
proof -
  assume "matching i a ds = d # rest"
  then have "d \<in> set (matching i a ds)" by simp
  then show ?thesis by (simp add: matching_def)
qed

lemma accountId_new_document: "accountId (new_document n i u) = accountId u"
  by (simp add: new_document_def user_data.defs)

lemma save_account_outcome:
  assumes "save_account F uc acc s = (r, s1)"
  shows "\<exists>evs. trace s1 = trace s @ evs \<and> console_errors s1 = console_errors s
           \<and> (case r of
                 Inl e \<Rightarrow> failed_accounts evs = [acc_id acc]
               | Inr d \<Rightarrow> failed_accounts evs = [] \<and> accountId d = acc_id acc)"
  using assms
  by (auto simp: save_account_unfold failed_accounts_simps accountId_new_document
        accountId_userData
      dest: matching_accountId split: option.splits list.splits)

lemma process_accounts_outcome:
  "\<exists>new evs.
     fst (process_accounts F uc accs saved s) = Inr (saved @ new)
     \<and> trace (snd (process_accounts F uc accs saved s)) = trace s @ evs
     \<and> console_errors (snd (process_accounts F uc accs saved s)) =
         console_errors s @ map error_line (failed_accounts evs)
     \<and> length new + length (failed_accounts evs) = length accs
     \<and> set (failed_accounts evs) \<subseteq> set (map acc_id accs)
     \<and> (distinct (map acc_id accs) \<longrightarrow>
          map accountId new =
            filter (\<lambda>a. a \<notin> set (failed_accounts evs)) (map acc_id accs))"
proof (induction accs arbitrary: saved s)
  case Nil
  show ?case by (simp add: resolve_def failed_accounts_simps)
next
  case (Cons acc rest)
  obtain r s1 where sa: "save_account F uc acc s = (r, s1)"
    by (cases "save_account F uc acc s")
  from save_account_outcome [OF sa] obtain ev1 where
    t1: "trace s1 = trace s @ ev1" and c1: "console_errors s1 = console_errors s"
    and o1: "case r of Inl e \<Rightarrow> failed_accounts ev1 = [acc_id acc]
               | Inr d \<Rightarrow> failed_accounts ev1 = [] \<and> accountId d = acc_id acc"
    by blast
  show ?case
  proof (cases r)
    case (Inl e)
    let ?s2 = "s1\<lparr>console_errors := console_errors s1 @ [error_line (acc_id acc)]\<rparr>"
    have eq: "process_accounts F uc (acc # rest) saved s = process_accounts F uc rest saved ?s2"
      using sa Inl
      by (simp add: process_accounts_Cons error_line_def del: process_accounts.simps)
    from Cons.IH [of saved ?s2] obtain new evs where
      ih: "fst (process_accounts F uc rest saved ?s2) = Inr (saved @ new)"
        "trace (snd (process_accounts F uc rest saved ?s2)) = trace ?s2 @ evs"
        "console_errors (snd (process_accounts F uc rest saved ?s2)) =
           console_errors ?s2 @ map error_line (failed_accounts evs)"
        "length new + length (failed_accounts evs) = length rest"
        "set (failed_accounts evs) \<subseteq> set (map acc_id rest)"
        "distinct (map acc_id rest) \<longrightarrow>
          map accountId new =
            filter (\<lambda>a. a \<notin> set (failed_accounts evs)) (map acc_id rest)"
      by blast
    from o1 Inl have f1: "failed_accounts ev1 = [acc_id acc]" by simp
    have d: "distinct (map acc_id (acc # rest)) \<longrightarrow>
          map accountId new =
            filter (\<lambda>a. a \<notin> set (failed_accounts (ev1 @ evs))) (map acc_id (acc # rest))"
    proof
      assume dist: "distinct (map acc_id (acc # rest))"
      then have notin: "acc_id acc \<notin> set (map acc_id rest)" by simp
      have "filter (\<lambda>a. a \<noteq> acc_id acc \<and> a \<notin> set (failed_accounts evs)) (map acc_id rest)
             = filter (\<lambda>a. a \<notin> set (failed_accounts evs)) (map acc_id rest)"
      proof (rule filter_cong [OF HOL.refl])
        fix x
        assume "x \<in> set (map acc_id rest)"
        with notin have "x \<noteq> acc_id acc" by blast
        then show "(x \<noteq> acc_id acc \<and> x \<notin> set (failed_accounts evs)) =
                   (x \<notin> set (failed_accounts evs))"
          by simp
      qed
      with dist ih(6) show "map accountId new =
            filter (\<lambda>a. a \<notin> set (failed_accounts (ev1 @ evs))) (map acc_id (acc # rest))"
        by (simp add: failed_accounts_append f1 del: filter_map)
    qed
    show ?thesis
      unfolding eq
      apply (rule exI [of _ new])
      apply (rule exI [of _ "ev1 @ evs"])
      using ih(1-5) t1 c1 f1 d
      by (simp add: failed_accounts_append) blast
  next
    case (Inr doc)
    have eq: "process_accounts F uc (acc # rest) saved s =
                process_accounts F uc rest (saved @ [doc]) s1"
      using sa Inr by (simp add: process_accounts_Cons del: process_accounts.simps)
    from Cons.IH [of "saved @ [doc]" s1] obtain new evs where
      ih: "fst (process_accounts F uc rest (saved @ [doc]) s1) = Inr ((saved @ [doc]) @ new)"
        "trace (snd (process_accounts F uc rest (saved @ [doc]) s1)) = trace s1 @ evs"
        "console_errors (snd (process_accounts F uc rest (saved @ [doc]) s1)) =
           console_errors s1 @ map error_line (failed_accounts evs)"
        "length new + length (failed_accounts evs) = length rest"
        "set (failed_accounts evs) \<subseteq> set (map acc_id rest)"
        "distinct (map acc_id rest) \<longrightarrow>
          map accountId new =
            filter (\<lambda>a. a \<notin> set (failed_accounts evs)) (map acc_id rest)"
      by blast
    from o1 Inr have f1: "failed_accounts ev1 = []" and a1: "accountId doc = acc_id acc"
      by simp_all
    have d: "distinct (map acc_id (acc # rest)) \<longrightarrow>
          map accountId (doc # new) =
            filter (\<lambda>a. a \<notin> set (failed_accounts (ev1 @ evs))) (map acc_id (acc # rest))"
    proof
      assume dist: "distinct (map acc_id (acc # rest))"
      with ih(5) have "acc_id acc \<notin> set (failed_accounts evs)" by auto
      with dist ih(6) a1 show "map accountId (doc # new) =
            filter (\<lambda>a. a \<notin> set (failed_accounts (ev1 @ evs))) (map acc_id (acc # rest))"
        by (simp add: failed_accounts_append f1 del: filter_map)
    qed
    show ?thesis
      unfolding eq
      apply (rule exI [of _ "doc # new"])
      apply (rule exI [of _ "ev1 @ evs"])
      using ih(1-5) t1 c1 f1 d
      by (simp add: failed_accounts_append) blast
  qed
qed


lemma rejects_creation_step:
  assumes "matching (c_id uc) a (documents s) = []"
    and "save_account (rejects_creation_for a) uc acc s = (r, s1)"
  shows "matching (c_id uc) a (documents s1) = []
         \<and> (\<exists>evs. trace s1 = trace s @ evs
               \<and> failed_accounts evs = (if acc_id acc = a then [a] else []))"
proof -
  have m: "matching i b (xs @ ys) = matching i b xs @ matching i b ys" for i b xs ys
    by (simp add: matching_def)
  from assms show ?thesis
    by (auto simp: save_account_unfold rejects_creation_for_def failed_accounts_simps m
          matching_new_document accountId_userData split: list.splits)
qed

lemma rejects_creation_failed:
  assumes "matching (c_id uc) a (documents s) = []"
  shows "\<exists>evs. trace (snd (process_accounts (rejects_creation_for a) uc accs saved s)) =
                  trace s @ evs
               \<and> failed_accounts evs = filter (\<lambda>i. i = a) (map acc_id accs)"
  using assms
proof (induction accs arbitrary: saved s)
  case Nil
  show ?case by (simp add: resolve_def failed_accounts_simps)
next
  case (Cons acc rest)
  obtain r s1 where sa: "save_account (rejects_creation_for a) uc acc s = (r, s1)"
    by (cases "save_account (rejects_creation_for a) uc acc s")
  from rejects_creation_step [OF Cons.prems sa] obtain ev1 where
    m1: "matching (c_id uc) a (documents s1) = []" and t1: "trace s1 = trace s @ ev1"
    and f1: "failed_accounts ev1 = (if acc_id acc = a then [a] else [])"
    by blast
  let ?s2 = "s1\<lparr>console_errors := console_errors s1 @
               [''Error processing account '' @ acc_id acc @ '':'']\<rparr>"
  have m2: "matching (c_id uc) a (documents ?s2) = []" using m1 by simp
  show ?case
  proof (cases r)
    case (Inl e)
    have eq: "process_accounts (rejects_creation_for a) uc (acc # rest) saved s =
               process_accounts (rejects_creation_for a) uc rest saved ?s2"
      using sa Inl by (simp add: process_accounts_Cons del: process_accounts.simps)
    from Cons.IH [OF m2, of saved] obtain evs where
      "trace (snd (process_accounts (rejects_creation_for a) uc rest saved ?s2)) =
         trace ?s2 @ evs"
      "failed_accounts evs = filter (\<lambda>i. i = a) (map acc_id rest)"
      by blast
    with t1 f1 show ?thesis
      unfolding eq by (intro exI [of _ "ev1 @ evs"]) (simp add: failed_accounts_append)
  next
    case (Inr doc)
    have eq: "process_accounts (rejects_creation_for a) uc (acc # rest) saved s =
               process_accounts (rejects_creation_for a) uc rest (saved @ [doc]) s1"
      using sa Inr by (simp add: process_accounts_Cons del: process_accounts.simps)
    from Cons.IH [OF m1, of "saved @ [doc]"] obtain evs where
      "trace (snd (process_accounts (rejects_creation_for a) uc rest (saved @ [doc]) s1)) =
         trace s1 @ evs"
      "failed_accounts evs = filter (\<lambda>i. i = a) (map acc_id rest)"
      by blast
    with t1 f1 show ?thesis
      unfolding eq by (intro exI [of _ "ev1 @ evs"]) (simp add: failed_accounts_append)
  qed
qed

lemma filter_eq_distinct:
  "distinct xs \<Longrightarrow> x \<in> set xs \<Longrightarrow> filter (\<lambda>y. y = x) xs = [x]"
  by (induction xs) (auto simp: filter_empty_conv)

lemma one_rejected_creation:
  assumes "distinct (map acc_id accs)" and "k < length accs"
    and "matching (c_id uc) (acc_id (accs ! k)) (documents s) = []"
  shows "length (saved_of (fst (process_accounts (rejects_creation_for (acc_id (accs ! k)))
           uc accs [] s))) = length accs - 1
    \<and> console_errors (snd (process_accounts (rejects_creation_for (acc_id (accs ! k)))
           uc accs [] s)) = console_errors s @ [error_line (acc_id (accs ! k))]"
proof -
  let ?a = "acc_id (accs ! k)"
  let ?run = "process_accounts (rejects_creation_for ?a) uc accs [] s"
  from process_accounts_outcome [of "rejects_creation_for ?a" uc accs "[]" s]
  obtain new evs where
    o: "fst ?run = Inr ([] @ new)" "trace (snd ?run) = trace s @ evs"
       "console_errors (snd ?run) = console_errors s @ map error_line (failed_accounts evs)"
       "length new + length (failed_accounts evs) = length accs"
    by blast
  from rejects_creation_failed [OF assms(3), of accs "[]"] obtain evs' where
    f: "trace (snd ?run) = trace s @ evs'"
       "failed_accounts evs' = filter (\<lambda>i. i = ?a) (map acc_id accs)"
    by blast
  from o(2) f(1) have "evs' = evs" by simp
  moreover have "?a \<in> set (map acc_id accs)"
    using assms(2) by (simp add: image_iff) (metis nth_mem)
  ultimately have "failed_accounts evs = [?a]"
    using f(2) filter_eq_distinct [OF assms(1)] by simp
  with o show ?thesis
    by (simp add: saved_of_def)
qed

section \<open>The whole sync\<close>

lemma sync_run:
  assumes lc: "F s ListCollections = None"
    and uc: "find_collection ''users'' (collections s) = Some uc"
    and ul: "\<forall>t off. F t (UsersList limit off) = None"
  shows "fetchAndSaveAccounts F s =
           (Inr (saved_of (fst (process_accounts F uc (accounts s) [] (fetched s)))),
            snd (process_accounts F uc (accounts s) [] (fetched s)))"
proof -
  let ?s1 = "s\<lparr>trace := trace s @ [Done ListCollections]\<rparr>"
  have l: "listCollections F s = (Inr (collections s), ?s1)"
    using lc by (simp add: listCollections_unfold)
  have f: "fetch_pages F 0 [] ?s1 = (Inr (accounts s), fetched s)"
    using fetch_pages_all [of F 0 "[]" ?s1] ul by (simp add: fetched_def del: upt_Suc)
  show ?thesis
    by (simp add: fetchAndSaveAccounts_unfold l uc f saved_of_def)
qed

lemma save_account_calls:
  assumes "save_account F uc acc s = (r, s1)"
  shows "\<exists>evs. trace s1 = trace s @ evs
           \<and> filter looks_up (map call_of evs) = [ListDocuments (c_id uc) (acc_id acc)]
           \<and> filter lists_accounts (map call_of evs) = []"
  using assms
  by (auto simp: save_account_unfold split: option.splits list.splits)

lemma process_accounts_calls:
  "\<exists>evs. trace (snd (process_accounts F uc accs saved s)) = trace s @ evs
     \<and> filter looks_up (map call_of evs) =
         map (\<lambda>acc. ListDocuments (c_id uc) (acc_id acc)) accs
     \<and> filter lists_accounts (map call_of evs) = []"
proof (induction accs arbitrary: saved s)
  case Nil
  show ?case by (simp add: resolve_def)
next
  case (Cons acc rest)
  obtain r s1 where sa: "save_account F uc acc s = (r, s1)"
    by (cases "save_account F uc acc s")
  from save_account_calls [OF sa] obtain ev1 where
    t1: "trace s1 = trace s @ ev1"
    and l1: "filter looks_up (map call_of ev1) = [ListDocuments (c_id uc) (acc_id acc)]"
    and n1: "filter lists_accounts (map call_of ev1) = []"
    by blast
  let ?s2 = "s1\<lparr>console_errors := console_errors s1 @
               [''Error processing account '' @ acc_id acc @ '':'']\<rparr>"
  show ?case
  proof (cases r)
    case (Inl e)
    have eq: "process_accounts F uc (acc # rest) saved s = process_accounts F uc rest saved ?s2"
      using sa Inl by (simp add: process_accounts_Cons del: process_accounts.simps)
    from Cons.IH [of saved ?s2] obtain evs where
      "trace (snd (process_accounts F uc rest saved ?s2)) = trace ?s2 @ evs"
      "filter looks_up (map call_of evs) =
         map (\<lambda>acc. ListDocuments (c_id uc) (acc_id acc)) rest"
      "filter lists_accounts (map call_of evs) = []"
      by blast
    with t1 l1 n1 show ?thesis
      unfolding eq by (intro exI [of _ "ev1 @ evs"]) simp
  next
    case (Inr doc)
    have eq: "process_accounts F uc (acc # rest) saved s =
                process_accounts F uc rest (saved @ [doc]) s1"
      using sa Inr by (simp add: process_accounts_Cons del: process_accounts.simps)
    from Cons.IH [of "saved @ [doc]" s1] obtain evs where
      "trace (snd (process_accounts F uc rest (saved @ [doc]) s1)) = trace s1 @ evs"
      "filter looks_up (map call_of evs) =
         map (\<lambda>acc. ListDocuments (c_id uc) (acc_id acc)) rest"
      "filter lists_accounts (map call_of evs) = []"
      by blast
    with t1 l1 n1 show ?thesis
      unfolding eq by (intro exI [of _ "ev1 @ evs"]) simp
  qed
qed

lemma filter_map_upt_all:
  "filter lists_accounts (map (\<lambda>k. UsersList lim (f k)) ks) = map (\<lambda>k. UsersList lim (f k)) ks"
  by (induction ks) auto

lemma filter_map_upt_none:
  "filter looks_up (map (\<lambda>k. UsersList lim (f k)) ks) = []"
  by (induction ks) auto

lemma failed_accounts_listing:
  "failed_accounts (map (\<lambda>k. Done (UsersList lim (f k))) ks) = []"
  by (induction ks) (auto simp: failed_accounts_simps)

text \<open>The events of a whole run, when the sync gets to its loop.\<close>

lemma sync_events:
  assumes lc: "F s ListCollections = None"
    and uc: "find_collection ''users'' (collections s) = Some uc"
    and ul: "\<forall>t off. F t (UsersList limit off) = None"
    and ev: "trace (snd (process_accounts F uc (accounts s) [] (fetched s))) =
               trace (fetched s) @ evs"
  shows "new_events s (snd (fetchAndSaveAccounts F s)) =
           Done ListCollections #
             map (\<lambda>k. Done (UsersList limit (k * limit)))
               [0..<Suc (length (accounts s) div limit)] @ evs"
  using ev by (simp add: sync_run [OF lc uc ul] new_events_def fetched_def del: upt_Suc)


text \<open>
  C4. The sync (\<open>fetchAndSaveAccounts\<close>) reads the accounts in pages of 100 and stops
  exactly at the first page with fewer than 100 records, having accumulated all the
  accounts in order: when the platform answers the listing calls, the page fetches that
  the sync issues are those at the offsets 0, 100, ... up to the number of full pages,
  every page before the last holds 100 accounts and the last one fewer, and the sync then
  looks up each account of the platform once, in the order of the list. With exactly 250
  accounts it issues 3 page fetches, returning 100, 100 and 50 records, and goes on with
  the 250 accounts.
\<close>

theorem pagination:
  assumes lc: "F s ListCollections = None"
    and uc: "find_collection ''users'' (collections s) = Some uc"
    and ul: "\<forall>t off. F t (UsersList limit off) = None"
  shows "limit = 100
    \<and> filter lists_accounts (map call_of (new_events s (snd (fetchAndSaveAccounts F s)))) =
        map (\<lambda>k. UsersList 100 (k * 100)) [0..<Suc (length (accounts s) div 100)]
    \<and> (\<forall>k < length (accounts s) div 100. page_size s (UsersList 100 (k * 100)) = 100)
    \<and> page_size s (UsersList 100 (length (accounts s) div 100 * 100)) < 100
    \<and> filter looks_up (map call_of (new_events s (snd (fetchAndSaveAccounts F s)))) =
        map (\<lambda>acc. ListDocuments (c_id uc) (acc_id acc)) (accounts s)
    \<and> (length (accounts s) = 250 \<longrightarrow>
         filter lists_accounts (map call_of (new_events s (snd (fetchAndSaveAccounts F s)))) =
           [UsersList 100 0, UsersList 100 100, UsersList 100 200]
         \<and> map (page_size s)
             (filter lists_accounts
                (map call_of (new_events s (snd (fetchAndSaveAccounts F s))))) =
             [100, 100, 50]
         \<and> length (filter looks_up
                     (map call_of (new_events s (snd (fetchAndSaveAccounts F s))))) = 250)"
proof -
  from process_accounts_calls [of F uc "accounts s" "[]" "fetched s"] obtain evs where
    t: "trace (snd (process_accounts F uc (accounts s) [] (fetched s))) =
          trace (fetched s) @ evs"
    and l: "filter looks_up (map call_of evs) =
              map (\<lambda>acc. ListDocuments (c_id uc) (acc_id acc)) (accounts s)"
    and n: "filter lists_accounts (map call_of evs) = []"
    by blast
  note ev = sync_events [OF lc uc ul t]
  have calls: "filter lists_accounts
                 (map call_of (new_events s (snd (fetchAndSaveAccounts F s)))) =
        map (\<lambda>k. UsersList 100 (k * 100)) [0..<Suc (length (accounts s) div 100)]"
    unfolding ev using n
    by (simp add: comp_def filter_map_upt_all limit_def del: upt_Suc)
  have looks: "filter looks_up (map call_of (new_events s (snd (fetchAndSaveAccounts F s)))) =
        map (\<lambda>acc. ListDocuments (c_id uc) (acc_id acc)) (accounts s)"
    unfolding ev using l
    by (simp add: comp_def filter_map_upt_none del: upt_Suc)
  have full: "\<forall>k < length (accounts s) div 100. page_size s (UsersList 100 (k * 100)) = 100"
    using full_pages [of _ "accounts s"] by (simp add: page_size_def limit_def)
  have short: "page_size s (UsersList 100 (length (accounts s) div 100 * 100)) < 100"
    using last_page [of "accounts s"] by (simp add: page_size_def limit_def)
  have three: "[0..<3] = [0, 1, Suc 1]"
    by (simp add: eval_nat_numeral)
  have ex: "length (accounts s) = 250 \<longrightarrow>
         filter lists_accounts (map call_of (new_events s (snd (fetchAndSaveAccounts F s)))) =
           [UsersList 100 0, UsersList 100 100, UsersList 100 200]
         \<and> map (page_size s)
             (filter lists_accounts
                (map call_of (new_events s (snd (fetchAndSaveAccounts F s))))) =
             [100, 100, 50]
         \<and> length (filter looks_up
                     (map call_of (new_events s (snd (fetchAndSaveAccounts F s))))) = 250"
  proof
    assume n250: "length (accounts s) = 250"
    then show "filter lists_accounts
                 (map call_of (new_events s (snd (fetchAndSaveAccounts F s)))) =
           [UsersList 100 0, UsersList 100 100, UsersList 100 200]
         \<and> map (page_size s)
             (filter lists_accounts
                (map call_of (new_events s (snd (fetchAndSaveAccounts F s))))) =
             [100, 100, 50]
         \<and> length (filter looks_up
                     (map call_of (new_events s (snd (fetchAndSaveAccounts F s))))) = 250"
      unfolding calls looks by (simp add: three page_size_def)
  qed
  have lim: "limit = 100"
    by (simp add: limit_def)
  from lim calls full short looks ex show ?thesis
    by blast
qed

theorem pagination_witness:
  "filter lists_accounts
     (map call_of (new_events (provisioned_platform 250)
        (snd (fetchAndSaveAccounts no_failures (provisioned_platform 250))))) =
     [UsersList 100 0, UsersList 100 100, UsersList 100 200]
   \<and> map (page_size (provisioned_platform 250))
       (filter lists_accounts
          (map call_of (new_events (provisioned_platform 250)
             (snd (fetchAndSaveAccounts no_failures (provisioned_platform 250)))))) =
       [100, 100, 50]
   \<and> length (filter looks_up
       (map call_of (new_events (provisioned_platform 250)
          (snd (fetchAndSaveAccounts no_failures (provisioned_platform 250)))))) = 250
   \<and> page_size (provisioned_platform 250) (UsersList 100 100) = 100"
proof -
  have lc: "no_failures (provisioned_platform 250) ListCollections = None"
    by (simp add: no_failures_def)
  have uc: "find_collection ''users'' (collections (provisioned_platform 250)) =
              Some users_collection0"
    by (simp add: provisioned_platform_def find_collection_def users_collection0_def)
  have ul: "\<forall>t off. no_failures t (UsersList limit off) = None"
    by (simp add: no_failures_def)
  have n: "length (accounts (provisioned_platform 250)) = 250"
    by (simp add: provisioned_platform_def platform_with_accounts_def del: upt_Suc)
  note p = pagination [OF lc uc ul]
  from p have full: "\<forall>k < length (accounts (provisioned_platform 250)) div 100.
      page_size (provisioned_platform 250) (UsersList 100 (k * 100)) = 100"
    by blast
  have one: "page_size (provisioned_platform 250) (UsersList 100 100) = 100"
    using full [rule_format, of 1] n by simp
  from p n have "filter lists_accounts
     (map call_of (new_events (provisioned_platform 250)
        (snd (fetchAndSaveAccounts no_failures (provisioned_platform 250))))) =
     [UsersList 100 0, UsersList 100 100, UsersList 100 200]
   \<and> map (page_size (provisioned_platform 250))
       (filter lists_accounts
          (map call_of (new_events (provisioned_platform 250)
             (snd (fetchAndSaveAccounts no_failures (provisioned_platform 250)))))) =
       [100, 100, 50]
   \<and> length (filter looks_up
       (map call_of (new_events (provisioned_platform 250)
          (snd (fetchAndSaveAccounts no_failures (provisioned_platform 250)))))) = 250"
    by blast
  with one show ?thesis by blast
qed

text \<open>
  C5. A failure while looking up or creating the profile of one account is caught, and
  the account skipped: once the sync (\<open>fetchAndSaveAccounts\<close>) has found the \<open>users\<close>
  collection and fetched the accounts, it returns whatever the platform rejects for single
  accounts (and the endpoint answers 200), every account gives either one returned
  document or one failure with its logged line, and (the accounts having distinct
  identifiers) the returned documents are those of exactly the accounts that did not fail,
  in order. With 50 accounts of which only the creation for account number 37 is
  rejected, the sync returns 49 profiles and logs one line.
\<close>

theorem failure_isolation:
  assumes lc: "F s ListCollections = None"
    and uc: "find_collection ''users'' (collections s) = Some uc"
    and ul: "\<forall>t off. F t (UsersList limit off) = None"
  shows "(\<exists>docs. fst (fetchAndSaveAccounts F s) = Inr docs)
   \<and> status (fst (accounts_sync F s)) = 200
   \<and> length (saved_of (fst (fetchAndSaveAccounts F s)))
       + length (failed_accounts (new_events s (snd (fetchAndSaveAccounts F s))))
       = length (accounts s)
   \<and> console_errors (snd (fetchAndSaveAccounts F s)) =
       console_errors s @
         map error_line (failed_accounts (new_events s (snd (fetchAndSaveAccounts F s))))
   \<and> (distinct (map acc_id (accounts s)) \<longrightarrow>
        map accountId (saved_of (fst (fetchAndSaveAccounts F s))) =
          filter (\<lambda>a. a \<notin> set (failed_accounts
                     (new_events s (snd (fetchAndSaveAccounts F s)))))
            (map acc_id (accounts s)))
   \<and> (distinct (map acc_id (accounts s)) \<and> length (accounts s) = 50
        \<and> matching (c_id uc) (acc_id (accounts s ! 36)) (documents s) = [] \<longrightarrow>
        length (saved_of (fst (fetchAndSaveAccounts
                  (rejects_creation_for (acc_id (accounts s ! 36))) s))) = 49
        \<and> console_errors (snd (fetchAndSaveAccounts
                  (rejects_creation_for (acc_id (accounts s ! 36))) s)) =
            console_errors s @ [error_line (acc_id (accounts s ! 36))])"
proof -
  let ?run = "process_accounts F uc (accounts s) [] (fetched s)"
  note run = sync_run [OF lc uc ul]
  from process_accounts_outcome [of F uc "accounts s" "[]" "fetched s"]
  obtain new evs where
    o: "fst ?run = Inr ([] @ new)" "trace (snd ?run) = trace (fetched s) @ evs"
       "console_errors (snd ?run) =
          console_errors (fetched s) @ map error_line (failed_accounts evs)"
       "length new + length (failed_accounts evs) = length (accounts s)"
       "distinct (map acc_id (accounts s)) \<longrightarrow>
          map accountId new =
            filter (\<lambda>a. a \<notin> set (failed_accounts evs)) (map acc_id (accounts s))"
    by blast
  have fa: "failed_accounts (new_events s (snd (fetchAndSaveAccounts F s))) =
              failed_accounts evs"
    unfolding sync_events [OF lc uc ul o(2)]
    by (simp add: failed_accounts_simps failed_accounts_append failed_accounts_listing
        del: upt_Suc)
  from o(1) have sv: "saved_of (fst (fetchAndSaveAccounts F s)) = new"
    by (simp add: run saved_of_def)
  have ce: "console_errors (fetched s) = console_errors s"
    by (simp add: fetched_def)
  have a: "\<exists>docs. fst (fetchAndSaveAccounts F s) = Inr docs"
    by (simp add: run)
  have h: "status (fst (accounts_sync F s)) = 200"
    by (simp add: accounts_sync_def run)
  have b: "length (saved_of (fst (fetchAndSaveAccounts F s)))
       + length (failed_accounts (new_events s (snd (fetchAndSaveAccounts F s))))
       = length (accounts s)"
    using o(4) by (simp only: fa sv)
  have c0: "console_errors (snd (fetchAndSaveAccounts F s)) =
       console_errors s @ map error_line (failed_accounts evs)"
    using o(3) by (simp add: run ce)
  have c: "console_errors (snd (fetchAndSaveAccounts F s)) =
       console_errors s @
         map error_line (failed_accounts (new_events s (snd (fetchAndSaveAccounts F s))))"
    unfolding fa by (rule c0)
  have d: "distinct (map acc_id (accounts s)) \<longrightarrow>
        map accountId (saved_of (fst (fetchAndSaveAccounts F s))) =
          filter (\<lambda>a. a \<notin> set (failed_accounts
                     (new_events s (snd (fetchAndSaveAccounts F s)))))
            (map acc_id (accounts s))"
    using o(5) by (simp only: fa sv)
  have e: "distinct (map acc_id (accounts s)) \<and> length (accounts s) = 50
        \<and> matching (c_id uc) (acc_id (accounts s ! 36)) (documents s) = [] \<longrightarrow>
        length (saved_of (fst (fetchAndSaveAccounts
                  (rejects_creation_for (acc_id (accounts s ! 36))) s))) = 49
        \<and> console_errors (snd (fetchAndSaveAccounts
                  (rejects_creation_for (acc_id (accounts s ! 36))) s)) =
            console_errors s @ [error_line (acc_id (accounts s ! 36))]"
  proof
    let ?G = "rejects_creation_for (acc_id (accounts s ! 36))"
    assume hyp: "distinct (map acc_id (accounts s)) \<and> length (accounts s) = 50
        \<and> matching (c_id uc) (acc_id (accounts s ! 36)) (documents s) = []"
    then have k: "36 < length (accounts s)" by simp
    have g1: "?G s ListCollections = None"
      by (simp add: rejects_creation_for_def)
    have g2: "\<forall>t off. ?G t (UsersList limit off) = None"
      by (simp add: rejects_creation_for_def)
    have m: "matching (c_id uc) (acc_id (accounts s ! 36)) (documents (fetched s)) = []"
      using hyp by (simp add: fetched_def)
    from one_rejected_creation [of "accounts s" 36 uc "fetched s"] hyp k m
    show "length (saved_of (fst (fetchAndSaveAccounts ?G s))) = 49
        \<and> console_errors (snd (fetchAndSaveAccounts ?G s)) =
            console_errors s @ [error_line (acc_id (accounts s ! 36))]"
      by (simp add: sync_run [OF g1 uc g2] ce saved_of_def)
  qed
  from a h b c d e show ?thesis by blast
qed

theorem failure_isolation_witness:
  "length (saved_of (fst (fetchAndSaveAccounts (rejects_creation_for ''account37'')
             (provisioned_platform 50)))) = 49
   \<and> console_errors (snd (fetchAndSaveAccounts (rejects_creation_for ''account37'')
             (provisioned_platform 50)))
       = [''Error processing account account37:'']
   \<and> status (fst (accounts_sync (rejects_creation_for ''account37'')
             (provisioned_platform 50))) = 200"
proof -
  let ?G = "rejects_creation_for ''account37''"
  have lc: "?G (provisioned_platform 50) ListCollections = None"
    by (simp add: rejects_creation_for_def)
  have uc: "find_collection ''users'' (collections (provisioned_platform 50)) =
              Some users_collection0"
    by (simp add: provisioned_platform_def find_collection_def users_collection0_def)
  have ul: "\<forall>t off. ?G t (UsersList limit off) = None"
    by (simp add: rejects_creation_for_def)
  have acc: "accounts (provisioned_platform 50) = batch 50"
    by (simp add: provisioned_platform_def platform_with_accounts_def batch_def
        del: upt_Suc)
  have d: "distinct (map acc_id (batch 50))"
    by code_simp
  have n: "length (batch 50) = 50"
    by (simp add: batch_def del: upt_Suc)
  have a: "acc_id (batch 50 ! 36) = ''account37''"
    by code_simp
  have m: "matching (c_id users_collection0) ''account37''
             (documents (provisioned_platform 50)) = []"
    by (simp add: matching_def provisioned_platform_def platform_with_accounts_def
        empty_platform_def)
  have c: "console_errors (provisioned_platform 50) = []"
    by (simp add: provisioned_platform_def platform_with_accounts_def empty_platform_def)
  let ?P = "provisioned_platform 50"
  note fi = failure_isolation [OF lc uc ul]
  have d1: "distinct (map acc_id (accounts ?P))" using d by (simp only: acc)
  have n1: "length (accounts ?P) = 50" using n by (simp only: acc)
  have m1: "matching (c_id users_collection0) (acc_id (accounts ?P ! 36)) (documents ?P) = []"
    using m by (simp only: acc a)
  from fi d1 n1 m1 have
    "length (saved_of (fst (fetchAndSaveAccounts
                  (rejects_creation_for (acc_id (accounts ?P ! 36))) ?P))) = 49
        \<and> console_errors (snd (fetchAndSaveAccounts
                  (rejects_creation_for (acc_id (accounts ?P ! 36))) ?P)) =
            console_errors ?P @ [error_line (acc_id (accounts ?P ! 36))]"
    by blast
  then have "length (saved_of (fst (fetchAndSaveAccounts ?G ?P))) = 49
        \<and> console_errors (snd (fetchAndSaveAccounts ?G ?P)) =
            [''Error processing account account37:'']"
    by (simp add: acc a c error_line_def)
  moreover from fi have "status (fst (accounts_sync ?G ?P)) = 200"
    by blast
  ultimately show ?thesis by blast
qed

section \<open>The provisioner, step by step\<close>

lemma listAttributes_unfold:
  "listAttributes F i s =
     (case F s (ListAttributes i) of
        Some m \<Rightarrow> (Inl (Error m), s\<lparr>trace := trace s @ [Rejected (ListAttributes i) m]\<rparr>)
      | None \<Rightarrow>
          (Inr (attributes_of i (collections s)),
           s\<lparr>trace := trace s @ [Done (ListAttributes i)]\<rparr>))"
  by (simp add: listAttributes_def remote_def split: option.splits)

lemma createRelationshipAttribute_unfold:
  "createRelationshipAttribute F i r k t s =
     (case F s (CreateRelationshipAttribute i r k t) of
        Some m \<Rightarrow>
          (Inl (Error m),
           s\<lparr>trace := trace s @ [Rejected (CreateRelationshipAttribute i r k t) m]\<rparr>)
      | None \<Rightarrow>
          (Inr (),
           s\<lparr>collections := link_attributes i r k t (collections s),
             trace := trace s @ [Done (CreateRelationshipAttribute i r k t)]\<rparr>))"
  by (simp add: createRelationshipAttribute_def remote_def split: option.splits)

lemma posts_relationship_returns: "fst (posts_relationship F u p s) = Inr ()"
  by (auto simp: posts_relationship_def try_catch_def console_error_def
      split: prod.splits sum.splits)

lemma user_and_post_relationships_returns:
  "fst (user_and_post_relationships F c u p ui pi line s) = Inr ()"
  by (auto simp: user_and_post_relationships_def try_catch_def console_error_def
      split: prod.splits sum.splits)

lemma createRelationships_preserves:
  assumes R_refl: "\<And>t. R t t"
    and R_trans: "\<And>t t1 t2. R t t1 \<Longrightarrow> R t1 t2 \<Longrightarrow> R t t2"
    and lc: "\<And>t. R t (snd (listCollections F t))"
    and log: "\<And>t l. R t (t\<lparr>console_errors := l\<rparr>)"
    and blk1: "\<And>u p t. find_collection ''users'' (collections s) = Some u \<Longrightarrow>
                 find_collection ''posts'' (collections s) = Some p \<Longrightarrow>
                 R t (snd (posts_relationship F u p t))"
    and blk2: "\<And>c u p ui pi line t.
                 find_collection ''saves'' (collections s) = Some c
                   \<or> find_collection ''likes'' (collections s) = Some c \<Longrightarrow>
                 R t (snd (user_and_post_relationships F c u p ui pi line t))"
  shows "R s (snd (createRelationships F s))"
proof -
  obtain r1 s1 where l: "listCollections F s = (r1, s1)"
    by (cases "listCollections F s")
  have a1: "R s s1" using lc [of s] l by simp
  show ?thesis
  proof (cases r1)
    case (Inl e)
    with l have "snd (createRelationships F s) =
        s1\<lparr>console_errors := console_errors s1 @ [''Error creating relationships:'']\<rparr>"
      by (simp add: createRelationships_def createRelationships_body_def try_catch_def
          await_def console_error_def)
    then show ?thesis using R_trans [OF a1 log] by simp
  next
    case (Inr cs)
    with l have cs: "cs = collections s"
      by (auto simp: listCollections_unfold split: option.splits)
    show ?thesis
    proof (cases "find_collection ''users'' cs = None \<or> find_collection ''posts'' cs = None")
      case True
      with l Inr have "snd (createRelationships F s) = s1"
        by (auto simp: createRelationships_def createRelationships_body_def try_catch_def
            await_def resolve_def split: option.splits)
      with a1 show ?thesis by simp
    next
      case False
      then obtain u p where u: "find_collection ''users'' cs = Some u"
        and p: "find_collection ''posts'' cs = Some p"
        by auto
      define saves_step where "saves_step =
        (case find_collection ''saves'' cs of
           Some savesCollection \<Rightarrow>
             user_and_post_relationships F savesCollection u p ''saves'' ''savedBy''
               ''Error creating relationships for saves collection:''
         | None \<Rightarrow> resolve ())"
      define likes_step where "likes_step =
        (case find_collection ''likes'' cs of
           Some likesCollection \<Rightarrow>
             user_and_post_relationships F likesCollection u p ''likes'' ''likedBy''
               ''Error creating relationships for likes collection:''
         | None \<Rightarrow> resolve ())"
      define s2 where "s2 = snd (posts_relationship F u p s1)"
      define s3 where "s3 = snd (saves_step s2)"
      define s4 where "s4 = snd (likes_step s3)"
      have b1: "posts_relationship F u p s1 = (Inr (), s2)"
        by (simp add: prod_eq_iff s2_def posts_relationship_returns)
      have n2: "fst (saves_step t) = Inr ()" for t
        by (simp add: saves_step_def user_and_post_relationships_returns resolve_def
            split: option.splits)
      have b2: "saves_step s2 = (Inr (), s3)"
        by (simp add: prod_eq_iff s3_def n2)
      have n3: "fst (likes_step t) = Inr ()" for t
        by (simp add: likes_step_def user_and_post_relationships_returns resolve_def
            split: option.splits)
      have b3: "likes_step s3 = (Inr (), s4)"
        by (simp add: prod_eq_iff s4_def n3)
      have body: "createRelationships_body F s = likes_step s3"
        using l Inr u p b1 b2
        by (simp add: createRelationships_body_def await_def saves_step_def likes_step_def)
      have e: "snd (createRelationships F s) = s4"
        by (simp add: createRelationships_def try_catch_def body b3)
      have a2: "R s1 s2"
        unfolding s2_def using u p cs by (intro blk1) simp_all
      have a3: "R s2 s3"
        unfolding s3_def saves_step_def using cs
        by (cases "find_collection ''saves'' cs") (auto simp: resolve_def R_refl intro: blk2)
      have a4: "R s3 s4"
        unfolding s4_def likes_step_def using cs
        by (cases "find_collection ''likes'' cs") (auto simp: resolve_def R_refl intro: blk2)
      show ?thesis
        unfolding e using a1 a2 a3 a4 R_trans by blast
    qed
  qed
qed

lemma await_preserves:
  assumes "\<And>t t1 t2. R t t1 \<Longrightarrow> R t1 t2 \<Longrightarrow> R t t2"
    and "\<And>t. R t (snd (m t))" and "\<And>x t. R t (snd (k x t))"
  shows "R s (snd (await m k s))"
proof (cases "m s")
  case (Pair r s1)
  with assms(2) [of s] have a: "R s s1" by simp
  show ?thesis
  proof (cases r)
    case (Inl e)
    with Pair a show ?thesis by (simp add: await_def)
  next
    case (Inr x)
    with Pair have eq: "await m k s = k x s1" by (simp add: await_def)
    have "R s1 (snd (k x s1))" by (rule assms(3))
    with a have "R s (snd (k x s1))" by (rule assms(1))
    then show ?thesis by (simp add: eq)
  qed
qed

lemma try_catch_preserves:
  assumes "\<And>t t1 t2. R t t1 \<Longrightarrow> R t1 t2 \<Longrightarrow> R t t2"
    and "\<And>t. R t (snd (m t))" and "\<And>e t. R t (snd (h e t))"
  shows "R s (snd (try_catch m h s))"
proof (cases "m s")
  case (Pair r s1)
  with assms(2) [of s] have a: "R s s1" by simp
  show ?thesis
  proof (cases r)
    case (Inr x)
    with Pair a show ?thesis by (simp add: try_catch_def)
  next
    case (Inl e)
    with Pair have eq: "try_catch m h s = h e s1" by (simp add: try_catch_def)
    have "R s1 (snd (h e s1))" by (rule assms(3))
    with a have "R s (snd (h e s1))" by (rule assms(1))
    then show ?thesis by (simp add: eq)
  qed
qed

lemma initializeDatabase_preserves:
  assumes R_refl: "\<And>t. R t t"
    and R_trans: "\<And>t t1 t2. R t t1 \<Longrightarrow> R t1 t2 \<Longrightarrow> R t t2"
    and log: "\<And>t l. R t (t\<lparr>console_errors := l\<rparr>)"
    and st1: "\<And>t. R t (snd (createUsersCollection F t))"
    and st2: "\<And>t. R t (snd (createPostsCollection F t))"
    and st3: "\<And>t. R t (snd (createSavesCollection F t))"
    and st4: "\<And>t. R t (snd (createLikesCollection F t))"
    and st5: "\<And>t. R t (snd (createRelationships F t))"
  shows "R s (snd (initializeDatabase F s))"
  unfolding initializeDatabase_def
proof (intro try_catch_preserves [of R] await_preserves [of R])
  show "\<And>t t1 t2. R t t1 \<Longrightarrow> R t1 t2 \<Longrightarrow> R t t2" by (rule R_trans)
qed (auto simp: resolve_def throw_def console_error_def R_refl log st1 st2 st3 st4 st5
      intro: R_trans)

lemma quiet_refl: "quiet s s"
  by (simp add: quiet_def)

lemma quiet_trans: "quiet s s1 \<Longrightarrow> quiet s1 s2 \<Longrightarrow> quiet s s2"
  by (auto simp: quiet_def)

lemma quiet_log: "quiet s (s\<lparr>console_errors := l\<rparr>)"
  by (simp add: quiet_def)

lemma quiet_listCollections: "quiet s (snd (listCollections F s))"
  by (simp add: quiet_def listCollections_unfold split: option.splits)

lemma quiet_createUsersCollection:
  "find_collection ''users'' (collections s) \<noteq> None \<Longrightarrow>
     quiet s (snd (createUsersCollection F s))"
  by (auto simp: createUsersCollection_def try_catch_def await_def listCollections_unfold
        resolve_def throw_def console_error_def quiet_def split: option.splits)

lemma quiet_createPostsCollection:
  "find_collection ''posts'' (collections s) \<noteq> None \<Longrightarrow>
     quiet s (snd (createPostsCollection F s))"
  by (auto simp: createPostsCollection_def try_catch_def await_def listCollections_unfold
        resolve_def throw_def console_error_def quiet_def split: option.splits)

lemma quiet_createSavesCollection:
  "find_collection ''saves'' (collections s) \<noteq> None \<Longrightarrow>
     quiet s (snd (createSavesCollection F s))"
  by (auto simp: createSavesCollection_def try_catch_def await_def listCollections_unfold
        resolve_def throw_def console_error_def quiet_def split: option.splits)

lemma quiet_createLikesCollection:
  "find_collection ''likes'' (collections s) \<noteq> None \<Longrightarrow>
     quiet s (snd (createLikesCollection F s))"
  by (auto simp: createLikesCollection_def try_catch_def await_def listCollections_unfold
        resolve_def throw_def console_error_def quiet_def split: option.splits)

lemma quiet_posts_relationship:
  "''posts'' \<in> set (attributes_of (c_id u) (collections s)) \<Longrightarrow>
     quiet s (snd (posts_relationship F u p s))"
  by (auto simp: posts_relationship_def try_catch_def await_def listAttributes_unfold
        resolve_def console_error_def quiet_def split: option.splits)

lemma quiet_user_and_post_relationships:
  "''user'' \<in> set (attributes_of (c_id c) (collections s)) \<Longrightarrow>
   ''post'' \<in> set (attributes_of (c_id c) (collections s)) \<Longrightarrow>
     quiet s (snd (user_and_post_relationships F c u p ui pi line s))"
  by (auto simp: user_and_post_relationships_def try_catch_def await_def listAttributes_unfold
        resolve_def console_error_def quiet_def split: option.splits)

lemma quiet_createRelationships:
  assumes "provisioned s"
  shows "quiet s (snd (createRelationships F s))"
proof -
  let ?R = "\<lambda>t t1. collections t = collections s \<longrightarrow> quiet t t1"
  have "?R s (snd (createRelationships F s))"
  proof (rule createRelationships_preserves [of ?R])
    fix u p t
    assume "find_collection ''users'' (collections s) = Some u"
    with assms show "?R t (snd (posts_relationship F u p t))"
      by (auto simp: provisioned_def has_attribute_def intro: quiet_posts_relationship)
  next
    fix c u p ui pi line t
    assume "find_collection ''saves'' (collections s) = Some c
              \<or> find_collection ''likes'' (collections s) = Some c"
    with assms show "?R t (snd (user_and_post_relationships F c u p ui pi line t))"
      by (auto simp: provisioned_def has_attribute_def
          intro: quiet_user_and_post_relationships)
  next
    fix t t1 t2
    assume "?R t t1" and "?R t1 t2"
    then show "?R t t2" by (auto simp: quiet_def)
  qed (auto simp: quiet_refl quiet_log quiet_listCollections)
  then show ?thesis by simp
qed

lemma provisioned_collections:
  "collections t = collections s \<Longrightarrow> provisioned t = provisioned s"
  by (simp add: provisioned_def has_attribute_def cong: option.case_cong)

lemma provisioned_finds:
  assumes "provisioned s"
  shows "find_collection ''users'' (collections s) \<noteq> None"
    and "find_collection ''posts'' (collections s) \<noteq> None"
    and "find_collection ''saves'' (collections s) \<noteq> None"
    and "find_collection ''likes'' (collections s) \<noteq> None"
  using assms by (auto simp: provisioned_def has_attribute_def split: option.splits)

lemma quiet_initializeDatabase:
  assumes "provisioned s"
  shows "quiet s (snd (initializeDatabase F s))"
proof -
  let ?R = "\<lambda>t t1. collections t = collections s \<longrightarrow> quiet t t1"
  have p: "collections t = collections s \<Longrightarrow> provisioned t" for t
    using assms provisioned_collections by blast
  have "?R s (snd (initializeDatabase F s))"
  proof (rule initializeDatabase_preserves [of ?R])
    fix t t1 t2
    assume "?R t t1" and "?R t1 t2"
    then show "?R t t2" by (auto simp: quiet_def)
  next
    fix t
    show "?R t (snd (createUsersCollection F t))"
      using provisioned_finds(1) [OF p [of t]] by (auto intro: quiet_createUsersCollection)
    show "?R t (snd (createPostsCollection F t))"
      using provisioned_finds(2) [OF p [of t]] by (auto intro: quiet_createPostsCollection)
    show "?R t (snd (createSavesCollection F t))"
      using provisioned_finds(3) [OF p [of t]] by (auto intro: quiet_createSavesCollection)
    show "?R t (snd (createLikesCollection F t))"
      using provisioned_finds(4) [OF p [of t]] by (auto intro: quiet_createLikesCollection)
    show "?R t (snd (createRelationships F t))"
      using p [of t] by (auto intro: quiet_createRelationships)
  qed (auto simp: quiet_refl quiet_log)
  then show ?thesis by simp
qed

lemma c_id_add_attribute [simp]: "c_id (add_attribute i k c) = c_id c"
  by (simp add: add_attribute_def)

lemma c_name_add_attribute [simp]: "c_name (add_attribute i k c) = c_name c"
  by (simp add: add_attribute_def)

lemma attributes_of_add_attribute:
  "set (attributes_of j (map (add_attribute i k) cs)) =
     set (attributes_of j cs) \<union> (if j = i \<and> i \<in> c_id ` set cs then {k} else {})"
  by (induction cs) (auto simp: attributes_of_def add_attribute_def)

lemma extends_refl: "extends s s"
  by (simp add: extends_def)

lemma extends_trans: "extends s s1 \<Longrightarrow> extends s1 s2 \<Longrightarrow> extends s s2"
  by (auto simp: extends_def)

lemma extends_same: "collections s1 = collections s \<Longrightarrow> extends s s1"
  by (simp add: extends_def)

lemma c_id_link_attributes [simp]: "map c_id (link_attributes i r k t cs) = map c_id cs"
  by (simp add: link_attributes_def comp_def)

lemma c_name_link_attributes [simp]: "map c_name (link_attributes i r k t cs) = map c_name cs"
  by (simp add: link_attributes_def comp_def)

lemma attributes_of_link_attributes:
  "set (attributes_of j cs) \<subseteq> set (attributes_of j (link_attributes i r k t cs))"
  unfolding link_attributes_def
  by (simp only: attributes_of_add_attribute) auto

lemma attributes_of_link_attributes_key:
  "i \<in> c_id ` set cs \<Longrightarrow> k \<in> set (attributes_of i (link_attributes i r k t cs))"
proof -
  assume "i \<in> c_id ` set cs"
  then have "k \<in> set (attributes_of i (map (add_attribute i k) cs))"
    by (simp add: attributes_of_add_attribute)
  then show ?thesis
    unfolding link_attributes_def
    by (simp only: attributes_of_add_attribute [of i r t]) simp
qed

lemma extends_link: "collections s1 = link_attributes i r k t (collections s) \<Longrightarrow> extends s s1"
  using attributes_of_link_attributes by (auto simp: extends_def)

lemma links_fresh_refl: "links_fresh s s"
  by (simp add: links_fresh_def extends_refl)

lemma extends_names: "extends s s1 \<Longrightarrow> c_name ` set (collections s1) = c_name ` set (collections s)"
proof -
  assume "extends s s1"
  then have "set (map c_name (collections s1)) = set (map c_name (collections s))"
    by (simp add: extends_def)
  then show ?thesis by simp
qed

lemma fresh_call_mono:
  assumes "extends s s1" and "fresh_call s1 c"
  shows "fresh_call s c"
proof (cases c)
  case (CreateCollection n)
  with assms(2) extends_names [OF assms(1)] show ?thesis by simp
next
  case (CreateRelationshipAttribute i r k t)
  with assms show ?thesis by (auto simp: extends_def)
qed simp_all

lemma links_fresh_trans:
  assumes "links_fresh s s1" and "links_fresh s1 s2"
  shows "links_fresh s s2"
proof -
  from assms obtain evs1 evs2 where
    e: "extends s s1" "extends s1 s2"
    and t: "trace s1 = trace s @ evs1" "trace s2 = trace s1 @ evs2"
    and f: "list_all (\<lambda>e. fresh_call s (call_of e)) evs1"
           "list_all (\<lambda>e. fresh_call s1 (call_of e)) evs2"
    by (auto simp: links_fresh_def)
  from f(2) e(1) have "list_all (\<lambda>e. fresh_call s (call_of e)) evs2"
    by (auto simp: list_all_iff intro: fresh_call_mono)
  with e t f(1) show ?thesis
    unfolding links_fresh_def
    by (intro conjI exI [of _ "evs1 @ evs2"]) (auto intro: extends_trans)
qed

lemma links_fresh_log: "links_fresh s (s\<lparr>console_errors := l\<rparr>)"
  by (simp add: links_fresh_def extends_def)

lemma links_fresh_listCollections: "links_fresh s (snd (listCollections F s))"
  by (simp add: links_fresh_def extends_def listCollections_unfold split: option.splits)

lemma links_fresh_posts_relationship: "links_fresh s (snd (posts_relationship F u p s))"
  by (auto simp: posts_relationship_def try_catch_def await_def listAttributes_unfold
        createRelationshipAttribute_unfold resolve_def console_error_def links_fresh_def
        extends_same extends_link
      split: option.splits)

lemma extends_link2:
  "collections s1 = link_attributes i r k t (link_attributes i2 r2 k2 t2 (collections s)) \<Longrightarrow>
     extends s s1"
  by (rule extends_trans [of s "s\<lparr>collections := link_attributes i2 r2 k2 t2 (collections s)\<rparr>"])
     (simp_all add: extends_link)

lemma links_fresh_user_and_post_relationships:
  "links_fresh s (snd (user_and_post_relationships F c u p ui pi line s))"
  by (auto simp: user_and_post_relationships_def try_catch_def await_def listAttributes_unfold
        createRelationshipAttribute_unfold resolve_def console_error_def links_fresh_def
        extends_same extends_link extends_link2
      split: option.splits)

lemma links_fresh_createRelationships: "links_fresh s (snd (createRelationships F s))"
  by (rule createRelationships_preserves)
     (auto intro: links_fresh_refl links_fresh_trans links_fresh_log links_fresh_listCollections
        links_fresh_posts_relationship links_fresh_user_and_post_relationships)

lemma find_collection_names:
  "(find_collection n cs \<noteq> None) = (n \<in> c_name ` set cs)"
  by (auto simp: find_collection_def find_None_iff)

lemma find_collection_member:
  "find_collection n cs = Some c \<Longrightarrow> c \<in> set cs \<and> c_name c = n"
  by (auto simp: find_collection_def find_Some_iff)

lemma find_same_names:
  "map c_name xs = map c_name ys \<Longrightarrow> map c_id xs = map c_id ys \<Longrightarrow>
   find_collection n xs = Some c \<Longrightarrow>
     \<exists>c1. find_collection n ys = Some c1 \<and> c_id c1 = c_id c"
proof (induction xs arbitrary: ys)
  case Nil
  then show ?case by (simp add: find_collection_def)
next
  case (Cons x xs)
  then obtain y ys1 where ys: "ys = y # ys1" by (cases ys) auto
  with Cons.prems have h: "c_name x = c_name y" "c_id x = c_id y"
    "map c_name xs = map c_name ys1" "map c_id xs = map c_id ys1"
    by simp_all
  show ?case
  proof (cases "c_name x = n")
    case True
    with Cons.prems(3) h ys show ?thesis by (simp add: find_collection_def)
  next
    case False
    with Cons.prems(3) have "find_collection n xs = Some c" by (simp add: find_collection_def)
    from Cons.IH [OF h(3) h(4) this] False h ys show ?thesis
      by (simp add: find_collection_def)
  qed
qed

lemma has_attribute_extends:
  assumes "extends s s1" and "has_attribute n k s"
  shows "has_attribute n k s1"
proof -
  from assms(2) obtain c where c: "find_collection n (collections s) = Some c"
    and k: "k \<in> set (attributes_of (c_id c) (collections s))"
    by (auto simp: has_attribute_def split: option.splits)
  from assms(1) have e: "map c_name (collections s) = map c_name (collections s1)"
    "map c_id (collections s) = map c_id (collections s1)"
    by (simp_all add: extends_def)
  from find_same_names [OF e c] obtain c1 where
    "find_collection n (collections s1) = Some c1" "c_id c1 = c_id c"
    by blast
  with k assms(1) show ?thesis
    by (auto simp: has_attribute_def extends_def)
qed

lemma has_attributeI:
  "find_collection n (collections s) = Some c \<Longrightarrow>
   k \<in> set (attributes_of (c_id c) (collections s)) \<Longrightarrow> has_attribute n k s"
  by (simp add: has_attribute_def)

lemma posts_relationship_done:
  assumes "c_id u \<in> c_id ` set (collections s)"
  shows "''posts'' \<in> set (attributes_of (c_id u)
           (collections (snd (posts_relationship no_failures u p s))))"
  using assms
  by (auto simp: posts_relationship_def try_catch_def await_def listAttributes_unfold
        createRelationshipAttribute_unfold resolve_def no_failures_def
        attributes_of_link_attributes_key)

lemma user_and_post_relationships_done:
  assumes "c_id c \<in> c_id ` set (collections s)"
  shows "''user'' \<in> set (attributes_of (c_id c)
           (collections (snd (user_and_post_relationships no_failures c u p ui pi line s))))
       \<and> ''post'' \<in> set (attributes_of (c_id c)
           (collections (snd (user_and_post_relationships no_failures c u p ui pi line s))))"
proof -
  have img: "c_id ` set (link_attributes i r k t cs) = c_id ` set cs" for i r k t cs
    using c_id_link_attributes [of i r k t cs] by (metis set_map)
  have mono: "x \<in> set (attributes_of j cs) \<Longrightarrow>
                x \<in> set (attributes_of j (link_attributes i r k t cs))" for x j i r k t cs
    using attributes_of_link_attributes by blast
  from assms show ?thesis
    by (auto simp: user_and_post_relationships_def try_catch_def await_def
          listAttributes_unfold createRelationshipAttribute_unfold resolve_def no_failures_def
          attributes_of_link_attributes_key img mono)
qed


lemma c_name_add_index [simp]: "c_name (add_index i k c) = c_name c"
  by (simp add: add_index_def)

lemma createUsersCollection_no_failures:
  "(\<exists>c. fst (createUsersCollection no_failures s) = Inr c)
   \<and> c_name ` set (collections (snd (createUsersCollection no_failures s))) =
       insert ''users'' (c_name ` set (collections s))"
proof (cases "find_collection ''users'' (collections s)")
  case None
  then show ?thesis
    by (simp add: createUsersCollection_def try_catch_def await_def listCollections_unfold
        createCollection_def createStringAttribute_def createEmailAttribute_def createIndex_def
        remote_def no_failures_def resolve_def Let_def image_image)
next
  case (Some c)
  then have "''users'' \<in> c_name ` set (collections s)"
    using find_collection_names [of "''users''" "collections s"] by simp
  with Some show ?thesis
    by (simp add: createUsersCollection_def try_catch_def await_def listCollections_unfold
        no_failures_def resolve_def insert_absorb)
qed

lemma createPostsCollection_no_failures:
  "(\<exists>c. fst (createPostsCollection no_failures s) = Inr c)
   \<and> c_name ` set (collections (snd (createPostsCollection no_failures s))) =
       insert ''posts'' (c_name ` set (collections s))"
proof (cases "find_collection ''posts'' (collections s)")
  case None
  then show ?thesis
    by (simp add: createPostsCollection_def try_catch_def await_def listCollections_unfold
        createCollection_def createStringAttribute_def createEmailAttribute_def createIndex_def
        remote_def no_failures_def resolve_def Let_def image_image)
next
  case (Some c)
  then have "''posts'' \<in> c_name ` set (collections s)"
    using find_collection_names [of "''posts''" "collections s"] by simp
  with Some show ?thesis
    by (simp add: createPostsCollection_def try_catch_def await_def listCollections_unfold
        no_failures_def resolve_def insert_absorb)
qed

lemma createSavesCollection_no_failures:
  "(\<exists>c. fst (createSavesCollection no_failures s) = Inr c)
   \<and> c_name ` set (collections (snd (createSavesCollection no_failures s))) =
       insert ''saves'' (c_name ` set (collections s))"
proof (cases "find_collection ''saves'' (collections s)")
  case None
  then show ?thesis
    by (simp add: createSavesCollection_def try_catch_def await_def listCollections_unfold
        createCollection_def remote_def no_failures_def resolve_def Let_def image_image)
next
  case (Some c)
  then have "''saves'' \<in> c_name ` set (collections s)"
    using find_collection_names [of "''saves''" "collections s"] by simp
  with Some show ?thesis
    by (simp add: createSavesCollection_def try_catch_def await_def listCollections_unfold
        no_failures_def resolve_def insert_absorb)
qed

lemma createLikesCollection_no_failures:
  "(\<exists>c. fst (createLikesCollection no_failures s) = Inr c)
   \<and> c_name ` set (collections (snd (createLikesCollection no_failures s))) =
       insert ''likes'' (c_name ` set (collections s))"
proof (cases "find_collection ''likes'' (collections s)")
  case None
  then show ?thesis
    by (simp add: createLikesCollection_def try_catch_def await_def listCollections_unfold
        createCollection_def remote_def no_failures_def resolve_def Let_def image_image)
next
  case (Some c)
  then have "''likes'' \<in> c_name ` set (collections s)"
    using find_collection_names [of "''likes''" "collections s"] by simp
  with Some show ?thesis
    by (simp add: createLikesCollection_def try_catch_def await_def listCollections_unfold
        no_failures_def resolve_def insert_absorb)
qed


lemma createRelationships_no_failures:
  assumes u: "find_collection ''users'' (collections s) = Some u"
    and p: "find_collection ''posts'' (collections s) = Some p"
    and sv: "find_collection ''saves'' (collections s) = Some sv"
    and l: "find_collection ''likes'' (collections s) = Some l"
  shows "provisioned (snd (createRelationships no_failures s))"
proof -
  define t1 where "t1 = s\<lparr>trace := trace s @ [Done ListCollections]\<rparr>"
  define t2 where "t2 = snd (posts_relationship no_failures u p t1)"
  define t3 where "t3 = snd (user_and_post_relationships no_failures sv u p ''saves''
    ''savedBy'' ''Error creating relationships for saves collection:'' t2)"
  define t4 where "t4 = snd (user_and_post_relationships no_failures l u p ''likes''
    ''likedBy'' ''Error creating relationships for likes collection:'' t3)"
  have b1: "posts_relationship no_failures u p t1 = (Inr (), t2)"
    by (simp add: prod_eq_iff t2_def posts_relationship_returns)
  have b2: "user_and_post_relationships no_failures sv u p ''saves''
    ''savedBy'' ''Error creating relationships for saves collection:'' t2 = (Inr (), t3)"
    by (simp add: prod_eq_iff t3_def user_and_post_relationships_returns)
  have b3: "user_and_post_relationships no_failures l u p ''likes''
    ''likedBy'' ''Error creating relationships for likes collection:'' t3 = (Inr (), t4)"
    by (simp add: prod_eq_iff t4_def user_and_post_relationships_returns)
  have lc: "listCollections no_failures s = (Inr (collections s), t1)"
    by (simp add: listCollections_unfold no_failures_def t1_def)
  have run: "snd (createRelationships no_failures s) = t4"
    by (simp add: createRelationships_def createRelationships_body_def try_catch_def await_def
        lc u p sv l b1 b2 b3)
  have e12: "extends t1 t2"
    using links_fresh_posts_relationship [of t1 no_failures u p]
    by (simp add: links_fresh_def t2_def)
  have e23: "extends t2 t3"
    using links_fresh_user_and_post_relationships [of t2 no_failures sv u p]
    by (simp add: links_fresh_def t3_def)
  have e34: "extends t3 t4"
    using links_fresh_user_and_post_relationships [of t3 no_failures l u p]
    by (simp add: links_fresh_def t4_def)
  have e01: "extends s t1"
    by (simp add: extends_def t1_def)
  have ids: "map c_id (collections t1) = map c_id (collections s)"
       "map c_id (collections t2) = map c_id (collections s)"
       "map c_id (collections t3) = map c_id (collections s)"
    using e01 extends_trans [OF e01 e12] extends_trans [OF extends_trans [OF e01 e12] e23]
    by (simp_all add: extends_def)
  have mem: "c_id c \<in> c_id ` set (collections s)"
    if "find_collection n (collections s) = Some c" for n c
    using find_collection_member [OF that] by blast
  have img: "c_id ` set (collections t) = c_id ` set (collections s)"
    if "map c_id (collections t) = map c_id (collections s)" for t
    using that by (metis set_map)
  have e02: "extends s t2" by (rule extends_trans [OF e01 e12])
  have e03: "extends s t3" by (rule extends_trans [OF e02 e23])
  have e04: "extends s t4" by (rule extends_trans [OF e03 e34])
  have found: "\<exists>c1. find_collection n (collections t) = Some c1 \<and> c_id c1 = c_id c"
    if "extends s t" and "find_collection n (collections s) = Some c" for t n c
  proof (rule find_same_names [OF _ _ that(2)])
    show "map c_name (collections s) = map c_name (collections t)"
      using that(1) by (simp add: extends_def)
    show "map c_id (collections s) = map c_id (collections t)"
      using that(1) by (simp add: extends_def)
  qed
  obtain u1 where u1: "find_collection ''users'' (collections t2) = Some u1" "c_id u1 = c_id u"
    using found [OF e02 u] by blast
  obtain sv1 where sv1: "find_collection ''saves'' (collections t3) = Some sv1"
      "c_id sv1 = c_id sv"
    using found [OF e03 sv] by blast
  obtain l1 where l1: "find_collection ''likes'' (collections t4) = Some l1" "c_id l1 = c_id l"
    using found [OF e04 l] by blast
  obtain p1 where p1: "find_collection ''posts'' (collections t4) = Some p1"
    using found [OF e04 p] by blast
  have "''posts'' \<in> set (attributes_of (c_id u) (collections t2))"
    unfolding t2_def using mem [OF u] img [OF ids(1)]
    by (intro posts_relationship_done) simp
  with u1 have h2: "has_attribute ''users'' ''posts'' t2"
    by (simp add: has_attribute_def)
  have "''user'' \<in> set (attributes_of (c_id sv) (collections t3))
      \<and> ''post'' \<in> set (attributes_of (c_id sv) (collections t3))"
    unfolding t3_def using mem [OF sv] img [OF ids(2)]
    by (intro user_and_post_relationships_done) simp
  with sv1 have h3: "has_attribute ''saves'' ''user'' t3" "has_attribute ''saves'' ''post'' t3"
    by (simp_all add: has_attribute_def)
  have "''user'' \<in> set (attributes_of (c_id l) (collections t4))
      \<and> ''post'' \<in> set (attributes_of (c_id l) (collections t4))"
    unfolding t4_def using mem [OF l] img [OF ids(3)]
    by (intro user_and_post_relationships_done) simp
  with l1 have h4: "has_attribute ''likes'' ''user'' t4" "has_attribute ''likes'' ''post'' t4"
    by (simp_all add: has_attribute_def)
  have "has_attribute ''users'' ''posts'' t4"
    using has_attribute_extends [OF extends_trans [OF e23 e34] h2] .
  moreover have "has_attribute ''saves'' ''user'' t4" "has_attribute ''saves'' ''post'' t4"
    using has_attribute_extends [OF e34] h3 by blast+
  ultimately show ?thesis
    unfolding run using h4 p1 by (simp add: provisioned_def)
qed

lemma initializeDatabase_provisions: "provisioned (snd (initializeDatabase no_failures s))"
proof -
  define s1 where "s1 = snd (createUsersCollection no_failures s)"
  define s2 where "s2 = snd (createPostsCollection no_failures s1)"
  define s3 where "s3 = snd (createSavesCollection no_failures s2)"
  define s4 where "s4 = snd (createLikesCollection no_failures s3)"
  obtain c1 where r1: "createUsersCollection no_failures s = (Inr c1, s1)"
    using createUsersCollection_no_failures [of s] by (auto simp: prod_eq_iff s1_def)
  obtain c2 where r2: "createPostsCollection no_failures s1 = (Inr c2, s2)"
    using createPostsCollection_no_failures [of s1] by (auto simp: prod_eq_iff s2_def)
  obtain c3 where r3: "createSavesCollection no_failures s2 = (Inr c3, s3)"
    using createSavesCollection_no_failures [of s2] by (auto simp: prod_eq_iff s3_def)
  obtain c4 where r4: "createLikesCollection no_failures s3 = (Inr c4, s4)"
    using createLikesCollection_no_failures [of s3] by (auto simp: prod_eq_iff s4_def)
  have n1: "c_name ` set (collections s1) = insert ''users'' (c_name ` set (collections s))"
    unfolding s1_def using createUsersCollection_no_failures [of s] by (rule conjunct2)
  have n2: "c_name ` set (collections s2) = insert ''posts'' (c_name ` set (collections s1))"
    unfolding s2_def using createPostsCollection_no_failures [of s1] by (rule conjunct2)
  have n3: "c_name ` set (collections s3) = insert ''saves'' (c_name ` set (collections s2))"
    unfolding s3_def using createSavesCollection_no_failures [of s2] by (rule conjunct2)
  have n4: "c_name ` set (collections s4) = insert ''likes'' (c_name ` set (collections s3))"
    unfolding s4_def using createLikesCollection_no_failures [of s3] by (rule conjunct2)
  have "find_collection ''users'' (collections s4) \<noteq> None"
    by (simp only: find_collection_names n4 n3 n2 n1) simp
  moreover have "find_collection ''posts'' (collections s4) \<noteq> None"
    by (simp only: find_collection_names n4 n3 n2 n1) simp
  moreover have "find_collection ''saves'' (collections s4) \<noteq> None"
    by (simp only: find_collection_names n4 n3 n2 n1) simp
  moreover have "find_collection ''likes'' (collections s4) \<noteq> None"
    by (simp only: find_collection_names n4 n3 n2 n1) simp
  ultimately obtain u p sv l where
    "find_collection ''users'' (collections s4) = Some u"
    "find_collection ''posts'' (collections s4) = Some p"
    "find_collection ''saves'' (collections s4) = Some sv"
    "find_collection ''likes'' (collections s4) = Some l"
    by blast
  then have pr: "provisioned (snd (createRelationships no_failures s4))"
    by (rule createRelationships_no_failures)
  define s5 where "s5 = snd (createRelationships no_failures s4)"
  have "fst (createRelationships no_failures s4) = Inr ()"
    by (simp add: createRelationships_def try_catch_def console_error_def
        split: prod.splits sum.splits)
  then have r5: "createRelationships no_failures s4 = (Inr (), s5)"
    by (simp add: prod_eq_iff s5_def)
  have "snd (initializeDatabase no_failures s) = s5"
    by (simp add: initializeDatabase_def try_catch_def await_def resolve_def r1 r2 r3 r4 r5)
  with pr show ?thesis by (simp add: s5_def)
qed

lemma only_fresh_refl: "only_fresh s s"
  by (simp add: only_fresh_def)

lemma only_fresh_names:
  "only_fresh s s1 \<Longrightarrow> c_name ` set (collections s) \<subseteq> c_name ` set (collections s1)"
  by (simp add: only_fresh_def)

lemma only_fresh_attributes:
  "only_fresh s s1 \<Longrightarrow>
     set (attributes_of i (collections s)) \<subseteq> set (attributes_of i (collections s1))"
  by (simp add: only_fresh_def)

lemma only_fresh_events:
  "only_fresh s s1 \<Longrightarrow>
     \<exists>evs. trace s1 = trace s @ evs \<and> list_all (\<lambda>e. fresh_call s (call_of e)) evs"
  by (simp add: only_fresh_def)

lemma fresh_call_grow:
  assumes "only_fresh s s1" and "fresh_call s1 c"
  shows "fresh_call s c"
proof (cases c)
  case (CreateCollection n)
  with assms(2) only_fresh_names [OF assms(1)] show ?thesis by auto
next
  case (CreateRelationshipAttribute i r k t)
  with assms(2) only_fresh_attributes [OF assms(1), of i] show ?thesis by auto
qed simp_all

lemma only_fresh_trans:
  assumes "only_fresh s s1" and "only_fresh s1 s2"
  shows "only_fresh s s2"
proof -
  from only_fresh_events [OF assms(1)] obtain evs1 where
    t1: "trace s1 = trace s @ evs1" and f1: "list_all (\<lambda>e. fresh_call s (call_of e)) evs1"
    by blast
  from only_fresh_events [OF assms(2)] obtain evs2 where
    t2: "trace s2 = trace s1 @ evs2" and f2: "list_all (\<lambda>e. fresh_call s1 (call_of e)) evs2"
    by blast
  have "fresh_call s (call_of e)" if "e \<in> set evs2" for e
  proof (rule fresh_call_grow [OF assms(1)])
    from f2 that show "fresh_call s1 (call_of e)" by (simp add: list_all_iff)
  qed
  then have f2': "list_all (\<lambda>e. fresh_call s (call_of e)) evs2"
    by (simp add: list_all_iff)
  have ev: "\<exists>evs. trace s2 = trace s @ evs \<and> list_all (\<lambda>e. fresh_call s (call_of e)) evs"
    using t1 t2 f1 f2' by (intro exI [of _ "evs1 @ evs2"]) simp
  have n: "c_name ` set (collections s) \<subseteq> c_name ` set (collections s2)"
    by (rule subset_trans [OF only_fresh_names [OF assms(1)] only_fresh_names [OF assms(2)]])
  have a: "\<forall>i. set (attributes_of i (collections s)) \<subseteq> set (attributes_of i (collections s2))"
  proof
    fix i
    show "set (attributes_of i (collections s)) \<subseteq> set (attributes_of i (collections s2))"
      by (rule subset_trans [OF only_fresh_attributes [OF assms(1)]
            only_fresh_attributes [OF assms(2)]])
  qed
  from n a ev show ?thesis
    unfolding only_fresh_def by (intro conjI)
qed

lemma links_fresh_only_fresh: "links_fresh s s1 \<Longrightarrow> only_fresh s s1"
  using extends_names [of s s1] by (auto simp: links_fresh_def only_fresh_def extends_def)

lemma only_fresh_log: "only_fresh s (s\<lparr>console_errors := l\<rparr>)"
  by (simp add: only_fresh_def)

lemma only_fresh_listCollections: "only_fresh s (snd (listCollections F s))"
  by (simp add: only_fresh_def listCollections_unfold split: option.splits)

lemma attributes_of_add_index [simp]:
  "attributes_of j (map (add_index i k) cs) = attributes_of j cs"
  by (induction cs) (auto simp: attributes_of_def add_index_def)

lemma only_fresh_createStringAttribute:
  "only_fresh s (snd (createStringAttribute F i k n r a s))"
  by (auto simp: only_fresh_def createStringAttribute_def remote_def image_image
        attributes_of_add_attribute split: option.splits)

lemma only_fresh_createEmailAttribute:
  "only_fresh s (snd (createEmailAttribute F i k r s))"
  by (auto simp: only_fresh_def createEmailAttribute_def remote_def image_image
        attributes_of_add_attribute split: option.splits)

lemma only_fresh_createIndex:
  "only_fresh s (snd (createIndex F i k as s))"
  by (auto simp: only_fresh_def createIndex_def remote_def image_image split: option.splits)

lemma promise_all_preserves:
  assumes R_refl: "\<And>t. R t t"
    and R_trans: "\<And>t t1 t2. R t t1 \<Longrightarrow> R t1 t2 \<Longrightarrow> R t t2"
    and each: "\<And>p t. p \<in> set ps \<Longrightarrow> R t (snd (p t))"
  shows "R s (snd (promise_all ps s))"
  using each
proof (induction ps arbitrary: s)
  case Nil
  show ?case by (simp add: R_refl)
next
  case (Cons p ps)
  have a: "R s (snd (p s))" by (rule Cons.prems) simp
  have b: "R (snd (p s)) (snd (promise_all ps (snd (p s))))"
    by (rule Cons.IH) (simp add: Cons.prems)
  have "snd (promise_all (p # ps) s) = snd (promise_all ps (snd (p s)))"
    by (simp split: prod.splits)
  with R_trans [OF a b] show ?case by simp
qed

lemma create_collection_shape:
  assumes rest: "\<And>c t. only_fresh t (snd (rest c t))"
  shows "only_fresh s (snd (try_catch
           (await (listCollections F) (\<lambda>cs.
              case find_collection n cs of
                Some c \<Rightarrow> resolve c
              | None \<Rightarrow> await (createCollection F n) rest))
           (\<lambda>error. await (console_error line) (\<lambda>u. throw error)) s))"
proof (cases "F s ListCollections")
  case (Some m)
  then show ?thesis
    by (simp add: try_catch_def await_def listCollections_unfold console_error_def throw_def
        only_fresh_def)
next
  case None
  let ?s1 = "s\<lparr>trace := trace s @ [Done ListCollections]\<rparr>"
  show ?thesis
  proof (cases "find_collection n (collections s)")
    case (Some c)
    with None show ?thesis
      by (simp add: try_catch_def await_def listCollections_unfold resolve_def only_fresh_def)
  next
    case nf: None
    then have fresh: "n \<notin> c_name ` set (collections s)"
      using find_collection_names [of n "collections s"] by simp
    show ?thesis
    proof (cases "F ?s1 (CreateCollection n)")
      case (Some m)
      with None nf fresh show ?thesis
        by (simp add: try_catch_def await_def listCollections_unfold createCollection_def
            remote_def console_error_def throw_def only_fresh_def)
    next
      case cn: None
      let ?c = "\<lparr>c_id = next_id s, c_name = n, c_attributes = [], c_indexes = []\<rparr>"
      let ?s2 = "s\<lparr>trace := trace s @ [Done ListCollections, Done (CreateCollection n)],
                    collections := collections s @ [?c], next_id := Suc (next_id s)\<rparr>"
      have cc: "createCollection F n ?s1 = (Inr ?c, ?s2)"
        using cn by (simp add: createCollection_def remote_def Let_def)
      have a: "only_fresh s ?s2"
        using fresh by (auto simp: only_fresh_def attributes_of_def)
      have b: "only_fresh ?s2 (snd (rest ?c ?s2))" by (rule rest)
      have ab: "only_fresh s (snd (rest ?c ?s2))" by (rule only_fresh_trans [OF a b])
      obtain r s3 where r: "rest ?c ?s2 = (r, s3)" by (cases "rest ?c ?s2")
      with ab have ab': "only_fresh s s3" by simp
      have "snd (try_catch
           (await (listCollections F) (\<lambda>cs.
              case find_collection n cs of
                Some c \<Rightarrow> resolve c
              | None \<Rightarrow> await (createCollection F n) rest))
           (\<lambda>error. await (console_error line) (\<lambda>u. throw error)) s) =
         (case r of Inl e \<Rightarrow> s3\<lparr>console_errors := console_errors s3 @ [line]\<rparr> | Inr x \<Rightarrow> s3)"
        using None nf cc r
        by (simp add: try_catch_def await_def listCollections_unfold console_error_def
            throw_def split: sum.splits)
      with ab' only_fresh_trans [OF ab' only_fresh_log] show ?thesis
        by (simp split: sum.splits)
    qed
  qed
qed

lemma only_fresh_resolve: "only_fresh s (snd (resolve x s))"
  by (simp add: resolve_def only_fresh_refl)

lemma only_fresh_createUsersCollection: "only_fresh s (snd (createUsersCollection F s))"
  unfolding createUsersCollection_def
  by (rule create_collection_shape)
     (intro await_preserves [of only_fresh] promise_all_preserves [of only_fresh]
        only_fresh_resolve,
      auto intro: only_fresh_trans only_fresh_refl only_fresh_createStringAttribute
        only_fresh_createEmailAttribute only_fresh_createIndex)

lemma only_fresh_createPostsCollection: "only_fresh s (snd (createPostsCollection F s))"
  unfolding createPostsCollection_def
  by (rule create_collection_shape)
     (intro await_preserves [of only_fresh] promise_all_preserves [of only_fresh]
        only_fresh_resolve,
      auto intro: only_fresh_trans only_fresh_refl only_fresh_createStringAttribute
        only_fresh_createEmailAttribute only_fresh_createIndex)

lemma only_fresh_createSavesCollection: "only_fresh s (snd (createSavesCollection F s))"
  unfolding createSavesCollection_def
  by (rule create_collection_shape) (rule only_fresh_resolve)

lemma only_fresh_createLikesCollection: "only_fresh s (snd (createLikesCollection F s))"
  unfolding createLikesCollection_def
  by (rule create_collection_shape) (rule only_fresh_resolve)

lemma only_fresh_initializeDatabase: "only_fresh s (snd (initializeDatabase F s))"
proof (rule initializeDatabase_preserves)
  fix t
  show "only_fresh t (snd (createRelationships F t))"
    by (rule links_fresh_only_fresh) (rule links_fresh_createRelationships)
qed (auto intro: only_fresh_refl only_fresh_trans only_fresh_log
      only_fresh_createUsersCollection only_fresh_createPostsCollection
      only_fresh_createSavesCollection only_fresh_createLikesCollection)

section \<open>Provisioning twice\<close>

lemma fresh_call_collection:
  "n \<in> c_name ` set (collections s) \<Longrightarrow> list_all (\<lambda>e. fresh_call s (call_of e)) evs \<Longrightarrow>
     \<not> list_ex (\<lambda>e. call_of e = CreateCollection n) evs"
  by (auto simp: list_all_iff list_ex_iff)

lemma fresh_call_link:
  "k \<in> set (attributes_of i (collections s)) \<Longrightarrow>
   list_all (\<lambda>e. fresh_call s (call_of e)) evs \<Longrightarrow>
     \<not> list_ex (\<lambda>e. creates_link i k (call_of e)) evs"
proof -
  assume k: "k \<in> set (attributes_of i (collections s))"
    and f: "list_all (\<lambda>e. fresh_call s (call_of e)) evs"
  have "\<not> creates_link i k c" if "fresh_call s c" for c
    using that k by (cases c) auto
  with f show ?thesis
    by (auto simp: list_all_iff list_ex_iff)
qed

text \<open>
  C1. A run of the provisioner in which no call fails leaves the four collections and the
  five relationship fields in place, and a run on such a database creates nothing,
  whatever fails in it: the collections are as they were and every call it issues is a
  listing. So a second run after a first one creates no collection and no relationship
  attribute. The guards behind this hold on every database and for every pattern of
  failures: a run creates a collection only under a name that was not listed, and a
  relationship attribute only under a key that its collection did not have, so that the
  creation is skipped for a name already listed and the link is not made again when the
  owning collection already has the field, as for \<open>posts\<close> on \<open>users\<close>.
\<close>

theorem provisioning_idempotent:
  "provisioned (snd (initializeDatabase no_failures s))
   \<and> (provisioned s \<longrightarrow>
        collections (snd (initializeDatabase F s)) = collections s
        \<and> list_all (\<lambda>e. read_only (call_of e)) (new_events s (snd (initializeDatabase F s))))
   \<and> collections (snd (initializeDatabase F (snd (initializeDatabase no_failures s)))) =
       collections (snd (initializeDatabase no_failures s))
   \<and> list_all (\<lambda>e. read_only (call_of e))
       (new_events (snd (initializeDatabase no_failures s))
          (snd (initializeDatabase F (snd (initializeDatabase no_failures s)))))
   \<and> list_all (\<lambda>e. fresh_call s (call_of e)) (new_events s (snd (initializeDatabase F s)))
   \<and> (n \<in> c_name ` set (collections s) \<longrightarrow>
        \<not> list_ex (\<lambda>e. call_of e = CreateCollection n)
             (new_events s (snd (initializeDatabase F s))))
   \<and> (k \<in> set (attributes_of i (collections s)) \<longrightarrow>
        \<not> list_ex (\<lambda>e. creates_link i k (call_of e))
             (new_events s (snd (initializeDatabase F s))))"
proof -
  have q: "collections (snd (initializeDatabase F t)) = collections t
        \<and> list_all (\<lambda>e. read_only (call_of e)) (new_events t (snd (initializeDatabase F t)))"
    if "provisioned t" for t
    using quiet_initializeDatabase [OF that, of F] by (auto simp: quiet_def new_events_def)
  have a: "provisioned (snd (initializeDatabase no_failures s))"
    by (rule initializeDatabase_provisions)
  have b: "provisioned s \<longrightarrow>
        collections (snd (initializeDatabase F s)) = collections s
        \<and> list_all (\<lambda>e. read_only (call_of e)) (new_events s (snd (initializeDatabase F s)))"
    using q [of s] by blast
  have c: "collections (snd (initializeDatabase F (snd (initializeDatabase no_failures s)))) =
       collections (snd (initializeDatabase no_failures s))"
    and d: "list_all (\<lambda>e. read_only (call_of e))
       (new_events (snd (initializeDatabase no_failures s))
          (snd (initializeDatabase F (snd (initializeDatabase no_failures s)))))"
    using q [OF a] by blast+
  have g: "list_all (\<lambda>e. fresh_call s (call_of e)) (new_events s (snd (initializeDatabase F s)))"
    using only_fresh_events [OF only_fresh_initializeDatabase [of s F]]
    by (auto simp: new_events_def)
  have e: "n \<in> c_name ` set (collections s) \<longrightarrow>
        \<not> list_ex (\<lambda>e. call_of e = CreateCollection n)
             (new_events s (snd (initializeDatabase F s)))"
    using fresh_call_collection [OF _ g] by blast
  have f: "k \<in> set (attributes_of i (collections s)) \<longrightarrow>
        \<not> list_ex (\<lambda>e. creates_link i k (call_of e))
             (new_events s (snd (initializeDatabase F s)))"
    using fresh_call_link [OF _ g] by blast
  from a b c d g e f show ?thesis by blast
qed



theorem provisioning_idempotent_witness:
  "provisioned provisioned_once
   \<and> collections (snd (initializeDatabase no_failures provisioned_once)) =
       collections provisioned_once
   \<and> list_all (\<lambda>e. read_only (call_of e))
       (new_events provisioned_once (snd (initializeDatabase no_failures provisioned_once)))
   \<and> \<not> list_ex (\<lambda>e. call_of e = CreateCollection ''users'')
         (new_events provisioned_once (snd (initializeDatabase no_failures provisioned_once)))
   \<and> \<not> list_ex (\<lambda>e. creates_link
                      (c_id (the (find_collection ''users'' (collections provisioned_once))))
                      ''posts'' (call_of e))
         (new_events provisioned_once (snd (initializeDatabase no_failures provisioned_once)))"
proof -
  have p: "provisioned provisioned_once"
    unfolding provisioned_once_def
    using provisioning_idempotent [of empty_platform] by (rule conjunct1)
  then obtain u where u: "find_collection ''users'' (collections provisioned_once) = Some u"
    and k: "''posts'' \<in> set (attributes_of (c_id u) (collections provisioned_once))"
    by (auto simp: provisioned_def has_attribute_def split: option.splits)
  from u have n: "''users'' \<in> c_name ` set (collections provisioned_once)"
    using find_collection_names [of "''users''" "collections provisioned_once"] by simp
  from u have i: "c_id (the (find_collection ''users'' (collections provisioned_once))) = c_id u"
    by simp
  note t = provisioning_idempotent [of provisioned_once no_failures "''users''" "''posts''" "c_id u"]
  from t p have a: "collections (snd (initializeDatabase no_failures provisioned_once)) =
       collections provisioned_once
     \<and> list_all (\<lambda>e. read_only (call_of e))
       (new_events provisioned_once (snd (initializeDatabase no_failures provisioned_once)))"
    by (elim conjE) simp
  from t n have b: "\<not> list_ex (\<lambda>e. call_of e = CreateCollection ''users'')
         (new_events provisioned_once (snd (initializeDatabase no_failures provisioned_once)))"
    by (elim conjE) simp
  from t k have c: "\<not> list_ex (\<lambda>e. creates_link (c_id u) ''posts'' (call_of e))
         (new_events provisioned_once (snd (initializeDatabase no_failures provisioned_once)))"
    by (elim conjE) simp
  from p a b c show ?thesis
    unfolding i by (intro conjI) simp_all
qed

end
